theory Spec2Isabelle
  imports Main "HOL-Library.Word"
begin

section \<open>The resumable downloader (package downloader)\<close>

text \<open>
  A shallow embedding of \<^verbatim>\<open>downloader/downloader.go\<close>.  The struct \<^verbatim>\<open>Downloader\<close> is a
  record and its methods are functions that take the record and return it updated.
  The operating system (files, the clock) and the HTTP peer are explicit: the file
  system is part of a \<open>world\<close> value that is threaded through, and everything the
  outside decides (which call fails, what the server answers, what each \<^verbatim>\<open>Read\<close>
  delivers, when the ticker fires) is an input of the model.  \<^verbatim>\<open>int64\<close> fields are
  64-bit words read with \<open>sint\<close>, so additions wrap as in Go.
\<close>

subsection \<open>Errors\<close>

type_synonym int64 = "64 word"

datatype error =
    EOF                     \<comment> \<open>\<^verbatim>\<open>io.EOF\<close>\<close>
  | ErrSyntax string        \<comment> \<open>\<^verbatim>\<open>strconv.ErrSyntax\<close> for the given input\<close>
  | ErrRange string         \<comment> \<open>\<^verbatim>\<open>strconv.ErrRange\<close> for the given input\<close>
  | ErrInvalid              \<comment> \<open>\<^verbatim>\<open>os.ErrInvalid\<close>: a method called on a nil \<^verbatim>\<open>*os.File\<close>, or a negative seek\<close>
  | ErrClosed               \<comment> \<open>\<^verbatim>\<open>os.ErrClosed\<close>: a method called on a closed file\<close>
  | BadStatus string        \<comment> \<open>\<^verbatim>\<open>fmt.Errorf("bad HTTP status %s\n", resp.Status)\<close>\<close>
  | ResumeRejected string   \<comment> \<open>\<^verbatim>\<open>fmt.Errorf("Server does not support partial downloads, ... remove file: %s\n", d.ProgressPath)\<close>\<close>
  | OSError string          \<comment> \<open>any other error of the operating system or of the network\<close>

subsection \<open>Decimal text: \<^verbatim>\<open>fmt.Sprintf("%d", _)\<close> and \<^verbatim>\<open>strconv.ParseInt(_, 10, 64)\<close>\<close>

definition digit_char :: "nat \<Rightarrow> char" where
  "digit_char n = ''0123456789'' ! n"

definition is_digit :: "char \<Rightarrow> bool" where
  "is_digit c = (48 \<le> (of_char c :: nat) \<and> (of_char c :: nat) \<le> 57)"

definition digit_val :: "char \<Rightarrow> nat" where
  "digit_val c = of_char c - 48"

fun show_nat :: "nat \<Rightarrow> string" where
  "show_nat n = (if n < 10 then [digit_char n] else show_nat (n div 10) @ [digit_char (n mod 10)])"

declare show_nat.simps [simp del]

text \<open>\<^verbatim>\<open>%d\<close> of a signed integer: a minus sign, then the digits of the magnitude.\<close>

definition show_int :: "int \<Rightarrow> string" where
  "show_int i = (if i < 0 then CHR ''-'' # show_nat (nat (- i)) else show_nat (nat i))"

text \<open>The digit loop of \<^verbatim>\<open>strconv.ParseUint\<close> in base 10: any other byte is a syntax error.\<close>

fun parse_digits :: "string \<Rightarrow> nat \<Rightarrow> nat option" where
  "parse_digits [] acc = Some acc"
| "parse_digits (c # cs) acc =
     (if is_digit c then parse_digits cs (acc * 10 + digit_val c) else None)"

text \<open>
  \<^verbatim>\<open>strconv.ParseInt(s, 10, 64)\<close>, from the documentation of the standard library: the
  empty string is a syntax error; one leading \<^verbatim>\<open>+\<close> or \<^verbatim>\<open>-\<close> is accepted; at least one
  digit must follow and nothing but digits (no blanks, no newline, no underscore in base
  10); a value outside \<open>-2^63 .. 2^63 - 1\<close> is a range error.
\<close>

definition ParseInt :: "string \<Rightarrow> error + int" where
  "ParseInt s =
     (if s = [] then Inl (ErrSyntax s)
      else
        let neg = (hd s = CHR ''-'');
            s1 = (if hd s = CHR ''+'' \<or> hd s = CHR ''-'' then tl s else s)
        in if s1 = [] then Inl (ErrSyntax s)
           else (case parse_digits s1 0 of
                   None \<Rightarrow> Inl (ErrSyntax s)
                 | Some un \<Rightarrow>
                     if \<not> neg \<and> 2 ^ 63 \<le> un then Inl (ErrRange s)
                     else if neg \<and> 2 ^ 63 < un then Inl (ErrRange s)
                     else Inr (if neg then - int un else int un)))"

subsection \<open>Files\<close>

text \<open>
  A path names an inode; an inode has its current content and the content that has
  reached stable storage (set by \<^verbatim>\<open>Sync\<close> only: the model takes no flush the program
  did not ask for).  An open \<^verbatim>\<open>*os.File\<close> refers to the inode, not to the path, so
  that it outlives \<^verbatim>\<open>os.Remove\<close> of the path.
\<close>

record inode =
  content :: string
  stable :: string

datatype event =
    EvPrint string               \<comment> \<open>a line on standard output\<close>
  | EvProgressInfo int64 int64   \<comment> \<open>\<^verbatim>\<open>PrintFormattedInfo(current, d.TotalSize, bps, eta)\<close>\<close>
  | EvSpawnReporter              \<comment> \<open>the \<^verbatim>\<open>go func()\<close> of \<^verbatim>\<open>ManageProgressPrinter\<close>\<close>
  | EvReporterReturn             \<comment> \<open>the goroutine takes \<^verbatim>\<open>case <-stopChan: return\<close>\<close>
  | EvClose nat                  \<comment> \<open>\<^verbatim>\<open>Close\<close> of the file on the given inode\<close>
  | EvBodyClose                  \<comment> \<open>\<^verbatim>\<open>resp.Body.Close()\<close>\<close>
  | EvRemove string              \<comment> \<open>\<^verbatim>\<open>os.Remove\<close> of the path\<close>

datatype reporter_state = NotStarted | Running | Returned

record world =
  fs :: "string \<Rightarrow> nat option"
  inodes :: "nat \<Rightarrow> inode"
  next_ino :: nat
  now :: int                     \<comment> \<open>the monotonic clock, in nanoseconds\<close>
  reporter :: reporter_state     \<comment> \<open>the goroutine started by \<^verbatim>\<open>ManageProgressPrinter\<close>\<close>
  stop_signalled :: bool         \<comment> \<open>whether \<^verbatim>\<open>stopChan\<close> has been closed or sent to\<close>
  trace :: "event list"

record os_file =
  f_ino :: nat
  f_pos :: nat
  f_closed :: bool

text \<open>What the outside decides about the calls that can fail.\<close>

record faults =
  url_fault :: "string \<Rightarrow> error option"    \<comment> \<open>\<^verbatim>\<open>http.NewRequest\<close> rejects the URL\<close>
  read_fault :: "string \<Rightarrow> error option"   \<comment> \<open>\<^verbatim>\<open>os.ReadFile\<close> fails on the path\<close>
  open_fault :: "string \<Rightarrow> error option"   \<comment> \<open>\<^verbatim>\<open>os.OpenFile\<close> fails on the path\<close>

definition ReadFile :: "faults \<Rightarrow> world \<Rightarrow> string \<Rightarrow> error + string" where
  "ReadFile fl w p =
     (case read_fault fl p of
        Some e \<Rightarrow> Inl e
      | None \<Rightarrow> (case fs w p of
                   None \<Rightarrow> Inl (OSError ''no such file or directory'')
                 | Some i \<Rightarrow> Inr (content (inodes w i))))"

text \<open>\<^verbatim>\<open>os.OpenFile(p, os.O_CREATE|..., 0644)\<close>: creates an empty file when the path is free,
  never truncates an existing one; the offset starts at 0.\<close>

definition OpenFile :: "faults \<Rightarrow> string \<Rightarrow> world \<Rightarrow> error + (os_file \<times> world)" where
  "OpenFile fl p w =
     (case open_fault fl p of
        Some e \<Rightarrow> Inl e
      | None \<Rightarrow> (case fs w p of
                   Some i \<Rightarrow> Inr (\<lparr>f_ino = i, f_pos = 0, f_closed = False\<rparr>, w)
                 | None \<Rightarrow>
                     let i = next_ino w
                     in Inr (\<lparr>f_ino = i, f_pos = 0, f_closed = False\<rparr>,
                             w\<lparr>fs := (fs w)(p := Some i),
                               inodes := (inodes w)(i := \<lparr>content = [], stable = []\<rparr>),
                               next_ino := Suc i\<rparr>)))"

text \<open>\<^verbatim>\<open>os.Remove\<close>: the path goes, the inode stays for the files still open on it.\<close>

definition Remove :: "string \<Rightarrow> world \<Rightarrow> world" where
  "Remove p w = w\<lparr>fs := (fs w)(p := None), trace := trace w @ [EvRemove p]\<rparr>"

text \<open>Writing \<open>bs\<close> at offset \<open>pos\<close>: a gap beyond the end reads as zero bytes; writing
  no bytes changes nothing.\<close>

definition write_at :: "nat \<Rightarrow> string \<Rightarrow> string \<Rightarrow> string" where
  "write_at pos bs old =
     (if bs = [] then old
      else take pos (old @ replicate (pos - length old) (char_of (0::nat))) @ bs @ drop (pos + length bs) old)"

text \<open>
  The methods of \<^verbatim>\<open>*os.File\<close>.  The receiver is a pointer that may be nil (\<open>None\<close>), in
  which case every method returns \<^verbatim>\<open>os.ErrInvalid\<close>; on a closed file every method
  returns \<^verbatim>\<open>os.ErrClosed\<close>.  \<^verbatim>\<open>Write\<close> takes the failure the outside imposes on this
  call: \<open>Some (k, e)\<close> writes only the first \<open>k\<close> bytes and returns \<open>e\<close>.
\<close>

definition File_Seek :: "os_file option \<Rightarrow> int \<Rightarrow> error option \<times> os_file option" where
  "File_Seek fo off =
     (case fo of
        None \<Rightarrow> (Some ErrInvalid, None)
      | Some f \<Rightarrow>
          if f_closed f then (Some ErrClosed, fo)
          else if off < 0 then (Some ErrInvalid, fo)
          else (None, Some (f\<lparr>f_pos := nat off\<rparr>)))"

definition File_Truncate :: "os_file option \<Rightarrow> nat \<Rightarrow> world \<Rightarrow> error option \<times> world" where
  "File_Truncate fo sz w =
     (case fo of
        None \<Rightarrow> (Some ErrInvalid, w)
      | Some f \<Rightarrow>
          if f_closed f then (Some ErrClosed, w)
          else
            let old = content (inodes w (f_ino f));
                new = take sz (old @ replicate (sz - length old) (char_of (0::nat)))
            in (None, w\<lparr>inodes := (inodes w)(f_ino f := (inodes w (f_ino f))\<lparr>content := new\<rparr>)\<rparr>))"

definition File_Write ::
  "(nat \<times> error) option \<Rightarrow> os_file option \<Rightarrow> string \<Rightarrow> world \<Rightarrow> error option \<times> os_file option \<times> world" where
  "File_Write fault fo bs w =
     (case fo of
        None \<Rightarrow> (Some ErrInvalid, None, w)
      | Some f \<Rightarrow>
          if f_closed f then (Some ErrClosed, fo, w)
          else
            let part = (case fault of None \<Rightarrow> bs | Some (k, e) \<Rightarrow> take k bs);
                old = content (inodes w (f_ino f));
                w' = w\<lparr>inodes := (inodes w)(f_ino f :=
                        (inodes w (f_ino f))\<lparr>content := write_at (f_pos f) part old\<rparr>)\<rparr>;
                f' = f\<lparr>f_pos := f_pos f + length part\<rparr>
            in (map_option snd fault, Some f', w'))"

definition File_Sync :: "os_file option \<Rightarrow> world \<Rightarrow> error option \<times> world" where
  "File_Sync fo w =
     (case fo of
        None \<Rightarrow> (Some ErrInvalid, w)
      | Some f \<Rightarrow>
          if f_closed f then (Some ErrClosed, w)
          else (None, w\<lparr>inodes := (inodes w)(f_ino f :=
                         (inodes w (f_ino f))\<lparr>stable := content (inodes w (f_ino f))\<rparr>)\<rparr>))"

definition File_Close :: "os_file option \<Rightarrow> world \<Rightarrow> error option \<times> os_file option \<times> world" where
  "File_Close fo w =
     (case fo of
        None \<Rightarrow> (Some ErrInvalid, None, w)
      | Some f \<Rightarrow>
          if f_closed f then (Some ErrClosed, fo, w)
          else (None, Some (f\<lparr>f_closed := True\<rparr>), w\<lparr>trace := trace w @ [EvClose (f_ino f)]\<rparr>))"

subsection \<open>The Downloader\<close>

record Downloader =
  Url :: string
  FilePath :: string
  ProgressPath :: string
  UseProgressFile :: bool
  Downloaded :: int64
  TotalSize :: int64
  ResumedAt :: int64
  PassedMilliSc :: int64
  OutputFile :: "os_file option"
  ProgressFile :: "os_file option"
  BufferSize :: int64

definition NewDownloader :: "string \<Rightarrow> string \<Rightarrow> bool \<Rightarrow> Downloader" where
  "NewDownloader url filepath useProgressFile =
     \<lparr>Url = url, FilePath = filepath, ProgressPath = filepath @ ''.progress'',
      UseProgressFile = useProgressFile,
      Downloaded = 0, TotalSize = 0, ResumedAt = 0, PassedMilliSc = 0,
      OutputFile = None, ProgressFile = None, BufferSize = 32768\<rparr>"

text \<open>\<^verbatim>\<open>ReadProgress\<close> has no result and no failure: every branch returns the record.\<close>

definition ReadProgress :: "faults \<Rightarrow> world \<Rightarrow> Downloader \<Rightarrow> Downloader" where
  "ReadProgress fl w d =
     (case ReadFile fl w (ProgressPath d) of
        Inl err \<Rightarrow> d\<lparr>Downloaded := 0\<rparr>
      | Inr data \<Rightarrow>
          (case ParseInt data of
             Inl err \<Rightarrow> d\<lparr>Downloaded := 0\<rparr>
           | Inr parsedNum \<Rightarrow>
               if parsedNum < 0 then d\<lparr>Downloaded := 0\<rparr>
               else d\<lparr>Downloaded := word_of_int parsedNum, ResumedAt := word_of_int parsedNum\<rparr>))"

text \<open>A request: the method, the URL and the headers that were set.\<close>

record request =
  req_method :: string
  req_url :: string
  req_header :: "string \<Rightarrow> string option"

definition NewRequest :: "faults \<Rightarrow> string \<Rightarrow> string \<Rightarrow> error + request" where
  "NewRequest fl m url =
     (case url_fault fl url of
        Some e \<Rightarrow> Inl e
      | None \<Rightarrow> Inr \<lparr>req_method = m, req_url = url, req_header = (\<lambda>_. None)\<rparr>)"

definition CreateRequest :: "faults \<Rightarrow> world \<Rightarrow> Downloader \<Rightarrow> (error + request) \<times> Downloader" where
  "CreateRequest fl w d =
     (case NewRequest fl ''GET'' (Url d) of
        Inl err \<Rightarrow> (Inl err, d)
      | Inr req \<Rightarrow>
          if UseProgressFile d then
            let d1 = ReadProgress fl w d
            in if 0 <s Downloaded d1
               then (Inr (req\<lparr>req_header := (req_header req)
                            (''Range'' := Some (''bytes='' @ show_int (sint (Downloaded d1)) @ ''-''))\<rparr>), d1)
               else (Inr req, d1)
          else (Inr req, d))"

subsection \<open>The streaming loops\<close>

text \<open>
  The response body is the list of what its successive \<^verbatim>\<open>Read\<close> calls return: the bytes
  delivered (\<open>n\<close> is their number), the error, and how long the call blocked.  With each
  read comes the failure, if any, that the outside imposes on the \<^verbatim>\<open>Write\<close> of its bytes.
  A list that ends without an error is a body that has delivered nothing further yet:
  the loop is then still blocked in \<^verbatim>\<open>Read\<close> and has not returned, which is the result
  \<open>None\<close>; \<open>Some None\<close> is the return of \<^verbatim>\<open>nil\<close> and \<open>Some (Some e)\<close> the return of \<open>e\<close>.
\<close>

record rd =
  rd_data :: string
  rd_err :: "error option"
  rd_wait :: nat
  wr_fault :: "(nat \<times> error) option"

type_synonym 'a returned = "'a option"

text \<open>The block \<^verbatim>\<open>if n > 0 { ... }\<close> of \<^verbatim>\<open>DownloadChunks\<close>; its first component is \<^verbatim>\<open>writeErr\<close>.\<close>

definition write_chunk :: "rd \<Rightarrow> Downloader \<Rightarrow> world \<Rightarrow> error option \<times> Downloader \<times> world" where
  "write_chunk r d w =
     (let n = length (rd_data r)
      in if 0 < n then
           (case File_Write (wr_fault r) (OutputFile d) (rd_data r) w of
              (Some writeErr, f, w1) \<Rightarrow> (Some writeErr, d\<lparr>OutputFile := f\<rparr>, w1)
            | (None, f, w1) \<Rightarrow> (None, d\<lparr>OutputFile := f, Downloaded := Downloaded d + of_nat n\<rparr>, w1))
         else (None, d, w))"

fun DownloadChunks :: "rd list \<Rightarrow> Downloader \<Rightarrow> world \<Rightarrow> error option returned \<times> Downloader \<times> world" where
  "DownloadChunks [] d w = (None, d, w)"
| "DownloadChunks (r # body) d w =
     (case write_chunk r d w of
        (Some writeErr, d1, w1) \<Rightarrow> (Some (Some writeErr), d1, w1)
      | (None, d1, w1) \<Rightarrow>
          (case rd_err r of
             Some readErr \<Rightarrow> if readErr = EOF then (Some None, d1, w1) else (Some (Some readErr), d1, w1)
           | None \<Rightarrow> DownloadChunks body d1 w1))"

text \<open>Go's integer conversion and division truncate towards zero.\<close>

definition tdiv :: "int \<Rightarrow> int \<Rightarrow> int" where
  "tdiv a b = sgn a * sgn b * (\<bar>a\<bar> div \<bar>b\<bar>)"

text \<open>
  \<^verbatim>\<open>time.Duration(float64(totalBytes)/float64(maxSpeedBytes))\<close>: the quotient of the two
  floats, converted to the integer type \<^verbatim>\<open>Duration\<close>, which drops the fraction.  For
  operands below \<open>2^52\<close> in magnitude and a divisor other than 0 the float quotient is
  within half a unit in the last place of the exact quotient and cannot reach the next
  integer, so the result is the truncated exact quotient.  Outside that range (a zero
  divisor gives an infinity or a NaN, whose conversion Go leaves to the implementation)
  the result is the parameter \<open>impl\<close>.
\<close>

definition float_quot_trunc :: "(int64 \<Rightarrow> int64 \<Rightarrow> int64) \<Rightarrow> int64 \<Rightarrow> int64 \<Rightarrow> int64" where
  "float_quot_trunc impl a b =
     (if b \<noteq> 0 \<and> \<bar>sint a\<bar> < 2 ^ 52 \<and> \<bar>sint b\<bar> < 2 ^ 52
      then word_of_int (tdiv (sint a) (sint b)) else impl a b)"

text \<open>\<^verbatim>\<open>time.Second\<close>, in nanoseconds.\<close>

definition Second :: int64 where
  "Second = 1000000000"

text \<open>The block \<^verbatim>\<open>if n > 0 { ... }\<close> of \<^verbatim>\<open>DownloadChunksWithLimit\<close>, which also carries
  \<^verbatim>\<open>totalBytes\<close> and sleeps.\<close>

definition write_chunk_limited ::
  "(int64 \<Rightarrow> int64 \<Rightarrow> int64) \<Rightarrow> int64 \<Rightarrow> int \<Rightarrow> int64 \<Rightarrow> rd \<Rightarrow> Downloader \<Rightarrow> world
     \<Rightarrow> error option \<times> int64 \<times> Downloader \<times> world" where
  "write_chunk_limited impl maxSpeedBytes startTime totalBytes r d w =
     (let n = length (rd_data r)
      in if 0 < n then
           (case File_Write (wr_fault r) (OutputFile d) (rd_data r) w of
              (Some writeErr, f, w1) \<Rightarrow> (Some writeErr, totalBytes, d\<lparr>OutputFile := f\<rparr>, w1)
            | (None, f, w1) \<Rightarrow>
                let d1 = d\<lparr>OutputFile := f, Downloaded := Downloaded d + of_nat n\<rparr>;
                    totalBytes1 = totalBytes + of_nat n;
                    expectedDuration = float_quot_trunc impl totalBytes1 maxSpeedBytes * Second;
                    elapsed = (word_of_int (now w1 - startTime) :: int64);
                    sleepDuration = expectedDuration - elapsed
                in if 0 <s sleepDuration
                   then (None, totalBytes1, d1, w1\<lparr>now := now w1 + sint sleepDuration\<rparr>)
                   else (None, totalBytes1, d1, w1))
         else (None, totalBytes, d, w))"

fun limit_loop ::
  "(int64 \<Rightarrow> int64 \<Rightarrow> int64) \<Rightarrow> int64 \<Rightarrow> int \<Rightarrow> int64 \<Rightarrow> rd list \<Rightarrow> Downloader \<Rightarrow> world
     \<Rightarrow> error option returned \<times> Downloader \<times> world" where
  "limit_loop impl maxSpeedBytes startTime totalBytes [] d w = (None, d, w)"
| "limit_loop impl maxSpeedBytes startTime totalBytes (r # body) d w =
     (case write_chunk_limited impl maxSpeedBytes startTime totalBytes r d
             (w\<lparr>now := now w + int (rd_wait r)\<rparr>) of
        (Some writeErr, totalBytes1, d1, w1) \<Rightarrow> (Some (Some writeErr), d1, w1)
      | (None, totalBytes1, d1, w1) \<Rightarrow>
          (case rd_err r of
             Some readErr \<Rightarrow> if readErr = EOF then (Some None, d1, w1) else (Some (Some readErr), d1, w1)
           | None \<Rightarrow> limit_loop impl maxSpeedBytes startTime totalBytes1 body d1 w1))"

definition DownloadChunksWithLimit ::
  "(int64 \<Rightarrow> int64 \<Rightarrow> int64) \<Rightarrow> rd list \<Rightarrow> int64 \<Rightarrow> Downloader \<Rightarrow> world
     \<Rightarrow> error option returned \<times> Downloader \<times> world" where
  "DownloadChunksWithLimit impl body maxSpeedBytes d w = limit_loop impl maxSpeedBytes (now w) 0 body d w"

subsection \<open>The reporter\<close>

text \<open>
  One pass through \<^verbatim>\<open>case <-ticker.C\<close>.  The speed and the time left are floats that only
  feed the printed line; the line is recorded with the two integers it is computed from.
  The results of the four calls on the progress file are dropped, as in the source.
\<close>

definition tick :: "Downloader \<Rightarrow> world \<Rightarrow> Downloader \<times> world" where
  "tick d w =
     (let current = Downloaded d;
          d1 = d\<lparr>PassedMilliSc := PassedMilliSc d + 1000\<rparr>;
          w1 = (if 0 <s TotalSize d1
                then w\<lparr>trace := trace w @ [EvProgressInfo current (TotalSize d1)]\<rparr> else w)
      in if ProgressFile d1 \<noteq> None then
           let (e1, f1) = File_Seek (ProgressFile d1) 0;
               (e2, w2) = File_Truncate f1 0 w1;
               (e3, f2, w3) = File_Write None f1 (show_int (sint current)) w2;
               (e4, w4) = File_Sync f2 w3
           in (d1\<lparr>ProgressFile := f2\<rparr>, w4)
         else (d1, w1))"

text \<open>\<^verbatim>\<open>ManageProgressPrinter\<close> starts the goroutine and returns.\<close>

definition ManageProgressPrinter :: "Downloader \<Rightarrow> world \<Rightarrow> world" where
  "ManageProgressPrinter d w =
     w\<lparr>reporter := Running, stop_signalled := False, trace := trace w @ [EvSpawnReporter]\<rparr>"

text \<open>
  The goroutine's \<^verbatim>\<open>select\<close>: when the ticker fires it does one \<open>tick\<close>; when
  \<^verbatim>\<open>stopChan\<close> has been signalled it may return.  A goroutine that is not running does
  nothing.
\<close>

definition ticker_fires :: "Downloader \<times> world \<Rightarrow> Downloader \<times> world" where
  "ticker_fires dw = (if reporter (snd dw) = Running then tick (fst dw) (snd dw) else dw)"

definition stop_observed :: "Downloader \<times> world \<Rightarrow> Downloader \<times> world" where
  "stop_observed dw =
     (if reporter (snd dw) = Running \<and> stop_signalled (snd dw)
      then (fst dw, (snd dw)\<lparr>reporter := Returned, trace := trace (snd dw) @ [EvReporterReturn]\<rparr>)
      else dw)"

subsection \<open>The loop of \<^verbatim>\<open>DownloadChunks\<close> and the reporter, interleaved\<close>

text \<open>
  While \<^verbatim>\<open>DownloadChunks\<close> runs, the goroutine runs too.  The loop is cut at its calls:
  \<^verbatim>\<open>Read\<close>, \<^verbatim>\<open>Write\<close>, \<^verbatim>\<open>atomic.AddInt64\<close>, and the test of \<^verbatim>\<open>readErr\<close>; between any two of
  them the scheduler may let the reporter move.  A schedule is the list of who moves.
\<close>

datatype wpc = AtRead | AtWrite rd | AtAdd rd | AtCheck rd | Ret "error option"

record sys =
  s_d :: Downloader
  s_w :: world
  s_pc :: wpc
  s_body :: "rd list"

datatype action = WriterStep | TickerFires | StopObserved

definition writer_step :: "sys \<Rightarrow> sys" where
  "writer_step s =
     (case s_pc s of
        AtRead \<Rightarrow>
          (case s_body s of
             [] \<Rightarrow> s
           | r # body \<Rightarrow> s\<lparr>s_body := body, s_pc := (if 0 < length (rd_data r) then AtWrite r else AtCheck r)\<rparr>)
      | AtWrite r \<Rightarrow>
          (case File_Write (wr_fault r) (OutputFile (s_d s)) (rd_data r) (s_w s) of
             (Some writeErr, f, w1) \<Rightarrow> s\<lparr>s_d := (s_d s)\<lparr>OutputFile := f\<rparr>, s_w := w1, s_pc := Ret (Some writeErr)\<rparr>
           | (None, f, w1) \<Rightarrow> s\<lparr>s_d := (s_d s)\<lparr>OutputFile := f\<rparr>, s_w := w1, s_pc := AtAdd r\<rparr>)
      | AtAdd r \<Rightarrow>
          s\<lparr>s_d := (s_d s)\<lparr>Downloaded := Downloaded (s_d s) + of_nat (length (rd_data r))\<rparr>, s_pc := AtCheck r\<rparr>
      | AtCheck r \<Rightarrow>
          (case rd_err r of
             Some readErr \<Rightarrow> s\<lparr>s_pc := Ret (if readErr = EOF then None else Some readErr)\<rparr>
           | None \<Rightarrow> s\<lparr>s_pc := AtRead\<rparr>)
      | Ret e \<Rightarrow> s)"

definition reporter_move :: "(Downloader \<times> world \<Rightarrow> Downloader \<times> world) \<Rightarrow> sys \<Rightarrow> sys" where
  "reporter_move f s = (let dw = f (s_d s, s_w s) in s\<lparr>s_d := fst dw, s_w := snd dw\<rparr>)"

fun step :: "action \<Rightarrow> sys \<Rightarrow> sys" where
  "step WriterStep s = writer_step s"
| "step TickerFires s = reporter_move ticker_fires s"
| "step StopObserved s = reporter_move stop_observed s"

definition run :: "action list \<Rightarrow> sys \<Rightarrow> sys" where
  "run sched s = fold step sched s"

subsection \<open>\<^verbatim>\<open>Download\<close>\<close>

text \<open>
  What the server answers: the status code and line, the \<^verbatim>\<open>Content-Length\<close> header (the
  empty string when the header is absent, as \<^verbatim>\<open>Header.Get\<close> returns it) and the body.
\<close>

record response =
  StatusCode :: int
  Status :: string
  ContentLength :: string
  Body :: "rd list"

text \<open>
  The inputs of one call of \<^verbatim>\<open>Download\<close>: the failures, what \<^verbatim>\<open>httpClient.Do\<close> returns for
  the request, the schedule while \<^verbatim>\<open>DownloadChunks\<close> runs, and how often the ticker fires
  at three later points: once the loop has returned, after \<^verbatim>\<open>os.Remove\<close>, and after the
  deferred \<^verbatim>\<open>d.ProgressFile.Close()\<close>.
\<close>

record env =
  flt :: faults
  do_result :: "request \<Rightarrow> error + response"
  sched :: "action list"
  ticks_at_return :: nat
  ticks_after_remove :: nat
  ticks_after_close :: nat

definition reporter_ticks :: "nat \<Rightarrow> Downloader \<times> world \<Rightarrow> Downloader \<times> world" where
  "reporter_ticks k dw = (ticker_fires ^^ k) dw"

definition print_line :: "string \<Rightarrow> world \<Rightarrow> world" where
  "print_line l w = w\<lparr>trace := trace w @ [EvPrint l]\<rparr>"

text \<open>The deferred calls run when \<^verbatim>\<open>Download\<close> returns, and only then.\<close>

definition deferred_ProgressFile_Close ::
  "env \<Rightarrow> error option returned \<times> Downloader \<times> world \<Rightarrow> error option returned \<times> Downloader \<times> world" where
  "deferred_ProgressFile_Close e res =
     (case res of
        (None, d, w) \<Rightarrow> (None, d, w)
      | (Some r, d, w) \<Rightarrow>
          (case File_Close (ProgressFile d) w of
             (err, f, w1) \<Rightarrow>
               (case reporter_ticks (ticks_after_close e) (d\<lparr>ProgressFile := f\<rparr>, w1) of
                  (d2, w2) \<Rightarrow> (Some r, d2, w2))))"

definition deferred_OutputFile_Close ::
  "error option returned \<times> Downloader \<times> world \<Rightarrow> error option returned \<times> Downloader \<times> world" where
  "deferred_OutputFile_Close res =
     (case res of
        (None, d, w) \<Rightarrow> (None, d, w)
      | (Some r, d, w) \<Rightarrow>
          (case File_Close (OutputFile d) w of
             (err, f, w1) \<Rightarrow> (Some r, d\<lparr>OutputFile := f\<rparr>, w1)))"

definition deferred_Body_Close ::
  "error option returned \<times> Downloader \<times> world \<Rightarrow> error option returned \<times> Downloader \<times> world" where
  "deferred_Body_Close res =
     (case res of
        (None, d, w) \<Rightarrow> (None, d, w)
      | (Some r, d, w) \<Rightarrow> (Some r, d, w\<lparr>trace := trace w @ [EvBodyClose]\<rparr>))"

text \<open>From \<^verbatim>\<open>stopChan := make(chan struct{})\<close> to the call of \<^verbatim>\<open>DownloadChunks\<close>: the state in
  which the loop and the goroutine start to run side by side.\<close>

definition stream_start :: "response \<Rightarrow> Downloader \<Rightarrow> world \<Rightarrow> sys" where
  "stream_start resp d w =
     (let w1 = ManageProgressPrinter d w;
          w2 = print_line (''Downloading from: '' @ Url d) w1;
          w3 = print_line (''Downloading to: ./'' @ FilePath d) w2
      in \<lparr>s_d = d, s_w = w3, s_pc = AtRead, s_body = Body resp\<rparr>)"

text \<open>From there to \<^verbatim>\<open>return err\<close>.\<close>

definition Download_stream ::
  "env \<Rightarrow> response \<Rightarrow> Downloader \<Rightarrow> world \<Rightarrow> error option returned \<times> Downloader \<times> world" where
  "Download_stream e resp d w =
     (let s = run (sched e) (stream_start resp d w)
      in case s_pc s of
           Ret err \<Rightarrow>
             (case reporter_ticks (ticks_at_return e) (s_d s, s_w s) of
                (d4, w4) \<Rightarrow>
                  if err = None then
                    (case reporter_ticks (ticks_after_remove e) (d4, Remove (ProgressPath d4) w4) of
                       (d5, w5) \<Rightarrow> (Some err, d5, print_line ''Download completed.'' w5))
                  else (Some err, d4, w4))
         | _ \<Rightarrow> (None, s_d s, s_w s))"

text \<open>From the opening of the output file on; each \<^verbatim>\<open>defer\<close> wraps what follows it.\<close>

definition Download_files ::
  "env \<Rightarrow> response \<Rightarrow> Downloader \<Rightarrow> world \<Rightarrow> error option returned \<times> Downloader \<times> world" where
  "Download_files e resp d w =
     (case OpenFile (flt e) (FilePath d) w of
        Inl err \<Rightarrow> (Some (Some err), d\<lparr>OutputFile := None\<rparr>, w)
      | Inr (f, w1) \<Rightarrow>
          deferred_OutputFile_Close
            (let d1 = d\<lparr>OutputFile := Some f\<rparr>
             in case File_Seek (OutputFile d1) (sint (Downloaded d1)) of
                  (Some err, fo) \<Rightarrow> (Some (Some err), d1\<lparr>OutputFile := fo\<rparr>, w1)
                | (None, fo) \<Rightarrow>
                    let d2 = d1\<lparr>OutputFile := fo\<rparr>
                    in (case OpenFile (flt e) (ProgressPath d2) w1 of
                          Inl err \<Rightarrow> (Some (Some err), d2\<lparr>ProgressFile := None\<rparr>, w1)
                        | Inr (pf, w2) \<Rightarrow>
                            deferred_ProgressFile_Close e
                              (Download_stream e resp (d2\<lparr>ProgressFile := Some pf\<rparr>) w2))))"

text \<open>From the test of the status on.\<close>

definition Download_response ::
  "env \<Rightarrow> response \<Rightarrow> Downloader \<Rightarrow> world \<Rightarrow> error option returned \<times> Downloader \<times> world" where
  "Download_response e resp d w =
     (if StatusCode resp \<noteq> 200 \<and> StatusCode resp \<noteq> 206
      then (Some (Some (BadStatus (Status resp))), d, w)
      else if 0 <s Downloaded d \<and> StatusCode resp \<noteq> 206
      then (Some (Some (ResumeRejected (ProgressPath d))), d,
            print_line (''Server doesn't support partial downloads, please remove file:  '' @ ProgressPath d) w)
      else if ContentLength resp \<noteq> []
      then (case ParseInt (ContentLength resp) of
              Inl err \<Rightarrow> (Some (Some err), d, w)
            | Inr contentLen \<Rightarrow>
                Download_files e resp (d\<lparr>TotalSize := Downloaded d + word_of_int contentLen\<rparr>) w)
      else Download_files e resp d w)"

definition Download :: "env \<Rightarrow> Downloader \<Rightarrow> world \<Rightarrow> error option returned \<times> Downloader \<times> world" where
  "Download e d w =
     (case CreateRequest (flt e) w d of
        (Inl err, d1) \<Rightarrow> (Some (Some err), d1, w)
      | (Inr req, d1) \<Rightarrow>
          (case do_result e req of
             Inl err \<Rightarrow> (Some (Some err), d1, w)
           | Inr resp \<Rightarrow> deferred_Body_Close (Download_response e resp d1 w)))"

subsection \<open>Notions used to state the properties\<close>

text \<open>All the bytes a list of reads delivers, in order.\<close>

definition payload :: "rd list \<Rightarrow> string" where
  "payload body = concat (map rd_data body)"

text \<open>A read after which the loop goes round again: no error, and its bytes, if any,
  are written without failure.\<close>

definition passes :: "rd \<Rightarrow> bool" where
  "passes r = (rd_err r = None \<and> (rd_data r = [] \<or> wr_fault r = None))"

text \<open>The state after the loop has gone through reads that deliver \<open>bs\<close> in all, on the
  open output file \<open>f\<close>.\<close>

definition advanced :: "string \<Rightarrow> os_file \<Rightarrow> Downloader \<Rightarrow> Downloader" where
  "advanced bs f d =
     d\<lparr>OutputFile := Some (f\<lparr>f_pos := f_pos f + length bs\<rparr>),
       Downloaded := Downloaded d + of_nat (length bs)\<rparr>"

definition written :: "string \<Rightarrow> os_file \<Rightarrow> world \<Rightarrow> world" where
  "written bs f w =
     w\<lparr>inodes := (inodes w)(f_ino f :=
          (inodes w (f_ino f))\<lparr>content := write_at (f_pos f) bs (content (inodes w (f_ino f)))\<rparr>)\<rparr>"

text \<open>
  \<^verbatim>\<open>ProgressStore.read\<close> as the specification words it: the last persisted byte count, or
  0 if the file is absent, malformed, or contains a negative value.
\<close>

definition spec_read :: "faults \<Rightarrow> world \<Rightarrow> string \<Rightarrow> int" where
  "spec_read fl w p =
     (case ReadFile fl w p of
        Inl e \<Rightarrow> 0
      | Inr data \<Rightarrow> (case ParseInt data of Inl e \<Rightarrow> 0 | Inr v \<Rightarrow> if v < 0 then 0 else v))"

subsection \<open>Concrete inputs\<close>

definition no_faults :: faults where
  "no_faults = \<lparr>url_fault = (\<lambda>_. None), read_fault = (\<lambda>_. None), open_fault = (\<lambda>_. None)\<rparr>"

definition empty_world :: world where
  "empty_world =
     \<lparr>fs = (\<lambda>_. None), inodes = (\<lambda>_. \<lparr>content = [], stable = []\<rparr>), next_ino = 0,
      now = 0, reporter = NotStarted, stop_signalled = False, trace = []\<rparr>"

text \<open>A world with one file, on inode 0.\<close>

definition file_world :: "string \<Rightarrow> string \<Rightarrow> world" where
  "file_world p c =
     empty_world\<lparr>fs := (\<lambda>_. None)(p := Some 0),
                 inodes := (\<lambda>_. \<lparr>content = [], stable = []\<rparr>)(0 := \<lparr>content = c, stable = c\<rparr>),
                 next_ino := 1\<rparr>"

definition chunk :: "string \<Rightarrow> rd" where
  "chunk bs = \<lparr>rd_data = bs, rd_err = None, rd_wait = 0, wr_fault = None\<rparr>"

definition eof :: rd where
  "eof = \<lparr>rd_data = [], rd_err = Some EOF, rd_wait = 0, wr_fault = None\<rparr>"

text \<open>The output file open at offset 0 on inode 0, in a Downloader that has it.\<close>

definition open_file0 :: os_file where
  "open_file0 = \<lparr>f_ino = 0, f_pos = 0, f_closed = False\<rparr>"

definition d_open :: Downloader where
  "d_open = (NewDownloader ''http://h/f'' ''f'' True)\<lparr>OutputFile := Some open_file0\<rparr>"

text \<open>A read that delivers bytes together with an error other than the end of the stream.\<close>

definition broken :: "string \<Rightarrow> rd" where
  "broken bs = \<lparr>rd_data = bs, rd_err = Some (OSError ''connection reset''), rd_wait = 0, wr_fault = None\<rparr>"

text \<open>A read whose bytes cannot be written: the disk takes \<open>k\<close> of them and is full.\<close>

definition unwritable :: "string \<Rightarrow> nat \<Rightarrow> rd" where
  "unwritable bs k = \<lparr>rd_data = bs, rd_err = None, rd_wait = 0,
                       wr_fault = Some (k, OSError ''no space left on device'')\<rparr>"

text \<open>A Downloader in mid-transfer: 500 bytes so far, the total size unknown, the progress
  file open on inode 0 with its offset after an earlier, longer value.\<close>

definition progress_file7 :: os_file where
  "progress_file7 = \<lparr>f_ino = 0, f_pos = 7, f_closed = False\<rparr>"

definition d_ticking :: Downloader where
  "d_ticking = (NewDownloader ''http://h/f'' ''f'' True)
                 \<lparr>Downloaded := 500, ProgressFile := Some progress_file7\<rparr>"

text \<open>A source much faster than a cap of 1000 bytes per second: three reads of 300 bytes,
  each taking one millisecond, then the end of the stream.\<close>

definition timed_chunk :: "nat \<Rightarrow> nat \<Rightarrow> rd" where
  "timed_chunk n ns = \<lparr>rd_data = replicate n (CHR ''x''), rd_err = None, rd_wait = ns, wr_fault = None\<rparr>"

definition fast_body :: "rd list" where
  "fast_body = [timed_chunk 300 1000000, timed_chunk 300 1000000, timed_chunk 300 1000000, eof]"

text \<open>
  What holds at every point of an interleaved run: both files are there, the progress
  file open on inode \<open>i\<close>; the goroutine runs and has not been told to stop; every read
  delivers fewer than \<open>2^63\<close> bytes (\<^verbatim>\<open>n\<close> is an \<^verbatim>\<open>int\<close> no larger than the buffer); and
  \<open>Downloaded\<close> is at most the offset of the output file, with room for the chunk that has
  been written and not yet counted.
\<close>

definition fits :: "rd \<Rightarrow> bool" where
  "fits r = (length (rd_data r) < 2 ^ 63)"

definition streaming_inv :: "nat \<Rightarrow> sys \<Rightarrow> bool" where
  "streaming_inv i s =
     (case (OutputFile (s_d s), ProgressFile (s_d s)) of
        (Some fo, Some pf) \<Rightarrow>
          f_ino pf = i \<and> \<not> f_closed pf \<and>
          reporter (s_w s) = Running \<and> \<not> stop_signalled (s_w s) \<and>
          list_all fits (s_body s) \<and>
          (case s_pc s of
             AtWrite r \<Rightarrow> fits r \<and> sint (Downloaded (s_d s)) \<le> int (f_pos fo)
           | AtAdd r \<Rightarrow> fits r \<and> sint (Downloaded (s_d s)) + int (length (rd_data r)) \<le> int (f_pos fo)
           | _ \<Rightarrow> sint (Downloaded (s_d s)) \<le> int (f_pos fo))
      | _ \<Rightarrow> False)"

text \<open>A transfer of \<^verbatim>\<open>hello\<close> about to stream: the answer of the server, the two files
  (the output on inode 0, the progress file on inode 1, both empty) and the Downloader
  that has opened them.\<close>

definition hello_resp :: response where
  "hello_resp = \<lparr>StatusCode = 200, Status = ''200 OK'', ContentLength = ''5'',
                  Body = [chunk ''hello'', eof]\<rparr>"

definition w_files :: world where
  "w_files = empty_world\<lparr>fs := (\<lambda>_. None)(''f'' := Some 0, ''f.progress'' := Some 1), next_ino := 2\<rparr>"

definition d_hello :: Downloader where
  "d_hello = (NewDownloader ''http://h/f'' ''f'' True)
               \<lparr>TotalSize := 5,
                OutputFile := Some \<lparr>f_ino = 0, f_pos = 0, f_closed = False\<rparr>,
                ProgressFile := Some \<lparr>f_ino = 1, f_pos = 0, f_closed = False\<rparr>\<rparr>"

text \<open>The first chunk read, written and counted, and then a tick.\<close>

definition s_ticked :: sys where
  "s_ticked = run [WriterStep, WriterStep, WriterStep, TickerFires] (stream_start hello_resp d_hello w_files)"

text \<open>The events that only the foreground of \<^verbatim>\<open>Download\<close> produces, and what the steps of
  the reporter and of the loop leave as it is: the paths, the state of the goroutine and
  of \<^verbatim>\<open>stopChan\<close>, the path of the progress file, whether its handle is closed, and the
  foreground's events.\<close>

definition foreground :: "event \<Rightarrow> bool" where
  "foreground ev = (case ev of EvProgressInfo a b \<Rightarrow> False | EvReporterReturn \<Rightarrow> False | _ \<Rightarrow> True)"

definition background :: "Downloader \<times> world \<Rightarrow> Downloader \<times> world \<Rightarrow> bool" where
  "background dw dw' =
     (fs (snd dw') = fs (snd dw) \<and> reporter (snd dw') = reporter (snd dw) \<and>
      stop_signalled (snd dw') = stop_signalled (snd dw) \<and>
      ProgressPath (fst dw') = ProgressPath (fst dw) \<and>
      map_option f_closed (ProgressFile (fst dw')) = map_option f_closed (ProgressFile (fst dw)) \<and>
      (\<forall>ev. foreground ev \<longrightarrow> (ev \<in> set (trace (snd dw')) \<longleftrightarrow> ev \<in> set (trace (snd dw)))))"

text \<open>What the deferred calls and the printing leave as it is.\<close>

definition keeps :: "world \<Rightarrow> world \<Rightarrow> bool" where
  "keeps w w' =
     (fs w' = fs w \<and> reporter w' = reporter w \<and> stop_signalled w' = stop_signalled w \<and>
      (\<forall>p. EvRemove p \<in> set (trace w') \<longleftrightarrow> EvRemove p \<in> set (trace w)) \<and>
      (EvSpawnReporter \<in> set (trace w') \<longleftrightarrow> EvSpawnReporter \<in> set (trace w)))"

text \<open>
  What every return of \<^verbatim>\<open>Download\<close> satisfies, for the progress path \<open>p\<close>, the world \<open>w\<close>
  before and the world \<open>w'\<close> after.  On \<^verbatim>\<open>nil\<close> the path has been removed, after the
  goroutine was started.  On an error it has
  not: no \<^verbatim>\<open>os.Remove\<close> of it has happened, a file that was there is still there, and if the
  goroutine was started in this call the file is there.  If the goroutine was started in
  this call, it is still running at the return, nothing has signalled \<^verbatim>\<open>stopChan\<close>, and the
  progress file is closed.
\<close>

definition spawned :: "world \<Rightarrow> world \<Rightarrow> bool" where
  "spawned w w' = (EvSpawnReporter \<in> set (trace w') \<and> EvSpawnReporter \<notin> set (trace w))"

definition exit_ok :: "string \<Rightarrow> world \<Rightarrow> error option \<Rightarrow> Downloader \<Rightarrow> world \<Rightarrow> bool" where
  "exit_ok p w r d' w' =
     ((r = None \<longrightarrow> fs w' p = None \<and> EvRemove p \<in> set (trace w') \<and> EvSpawnReporter \<in> set (trace w')) \<and>
      (r \<noteq> None \<longrightarrow>
         (EvRemove p \<in> set (trace w') \<longleftrightarrow> EvRemove p \<in> set (trace w)) \<and>
         (\<forall>i. fs w p = Some i \<longrightarrow> fs w' p = Some i) \<and>
         (spawned w w' \<longrightarrow> fs w' p \<noteq> None)) \<and>
      (spawned w w' \<longrightarrow>
         reporter w' = Running \<and> \<not> stop_signalled w' \<and>
         (\<exists>pf. ProgressFile d' = Some pf \<and> f_closed pf)))"

text \<open>Whole calls of \<^verbatim>\<open>Download\<close>.  The server sends \<^verbatim>\<open>hello\<close> and the end of the stream; the
  ticker fires once after the first chunk has been counted and once after the deferred
  close of the progress file.\<close>

definition d_new :: Downloader where
  "d_new = NewDownloader ''http://h/f'' ''f'' True"

definition hello_env :: env where
  "hello_env =
     \<lparr>flt = no_faults, do_result = (\<lambda>req. Inr hello_resp),
      sched = [WriterStep, WriterStep, WriterStep, TickerFires, WriterStep, WriterStep, WriterStep],
      ticks_at_return = 0, ticks_after_remove = 0, ticks_after_close = 1\<rparr>"

text \<open>The connection breaks in the second read, which still delivers bytes.\<close>

definition broken_env :: env where
  "broken_env =
     \<lparr>flt = no_faults,
      do_result = (\<lambda>req. Inr \<lparr>StatusCode = 200, Status = ''200 OK'', ContentLength = ''10'',
                                Body = [chunk ''he'', broken ''llo'']\<rparr>),
      sched = [WriterStep, WriterStep, WriterStep, WriterStep, TickerFires,
               WriterStep, WriterStep, WriterStep, WriterStep],
      ticks_at_return = 0, ticks_after_remove = 0, ticks_after_close = 0\<rparr>"

text \<open>A server that answers with the given status and no body.\<close>

definition status_env :: "int \<Rightarrow> string \<Rightarrow> env" where
  "status_env code line =
     \<lparr>flt = no_faults,
      do_result = (\<lambda>req. Inr \<lparr>StatusCode = code, Status = line, ContentLength = [], Body = []\<rparr>),
      sched = [], ticks_at_return = 0, ticks_after_remove = 0, ticks_after_close = 0\<rparr>"

section \<open>Properties\<close>

subsection \<open>Decimal text\<close>

lemma lt10_cases: "(k::nat) < 10 \<Longrightarrow> k \<in> {0, 1, 2, 3, 4, 5, 6, 7, 8, 9}"
  by (simp only: insert_iff empty_iff) arith

lemma digit_val_char: "n < 10 \<Longrightarrow> digit_val (digit_char n) = n"
  by (drule lt10_cases) (auto simp: digit_val_def digit_char_def)

lemma is_digit_char: "n < 10 \<Longrightarrow> is_digit (digit_char n)"
  by (drule lt10_cases) (auto simp: is_digit_def digit_char_def)

lemma parse_digits_append:
  "parse_digits (xs @ ys) acc = (case parse_digits xs acc of None \<Rightarrow> None | Some a \<Rightarrow> parse_digits ys a)"
  by (induction xs arbitrary: acc) auto

lemma parse_show_nat: "parse_digits (show_nat n) 0 = Some n"
proof (induction n rule: show_nat.induct)
  case (1 n)
  show ?case
  proof (cases "n < 10")
    case True
    then show ?thesis
      by (subst show_nat.simps) (simp add: is_digit_char digit_val_char)
  next
    case False
    with 1 have "parse_digits (show_nat (n div 10)) 0 = Some (n div 10)" by simp
    with False show ?thesis
      by (subst show_nat.simps) (simp add: parse_digits_append is_digit_char digit_val_char)
  qed
qed

lemma show_nat_nonempty: "show_nat n \<noteq> []"
  by (subst show_nat.simps) simp

lemma hd_show_nat_digit: "is_digit (hd (show_nat n))"
proof (induction n rule: show_nat.induct)
  case (1 n)
  show ?case
  proof (cases "n < 10")
    case True
    then show ?thesis by (subst show_nat.simps) (simp add: is_digit_char)
  next
    case False
    with 1 have "is_digit (hd (show_nat (n div 10)))" by simp
    with False show ?thesis
      by (subst show_nat.simps) (simp add: show_nat_nonempty)
  qed
qed

lemma not_digit_signs: "\<not> is_digit CHR ''-''" "\<not> is_digit CHR ''+''"
  by (simp_all add: is_digit_def)

lemma hd_show_nat_sign: "hd (show_nat n) \<noteq> CHR ''-''" "hd (show_nat n) \<noteq> CHR ''+''"
  using hd_show_nat_digit [of n] not_digit_signs by auto

lemma ParseInt_show_int:
  assumes "- (2 ^ 63) \<le> i" "i < 2 ^ 63"
  shows "ParseInt (show_int i) = Inr i"
proof (cases "i < 0")
  case True
  with assms have "nat (- i) \<le> 2 ^ 63" by (simp add: nat_le_iff)
  with True show ?thesis
    by (simp add: ParseInt_def show_int_def show_nat_nonempty parse_show_nat)
next
  case False
  with assms have "nat i < 2 ^ 63" by (simp add: nat_less_iff)
  with False show ?thesis
    by (simp add: ParseInt_def show_int_def show_nat_nonempty parse_show_nat hd_show_nat_sign Let_def)
qed

lemma ParseInt_range: "ParseInt s = Inr v \<Longrightarrow> - (2 ^ 63) \<le> v \<and> v < 2 ^ 63"
  by (auto simp: ParseInt_def Let_def split: if_splits option.splits)

lemma sint_word_of_int_64: "- (2 ^ 63) \<le> v \<Longrightarrow> v < 2 ^ 63 \<Longrightarrow> sint (word_of_int v :: int64) = v"
  by (simp add: sint_sbintrunc' signed_take_bit_int_eq_self)

lemma ParseInt_sint: "ParseInt s = Inr v \<Longrightarrow> sint (word_of_int v :: int64) = v"
  using ParseInt_range [of s v] by (simp add: sint_word_of_int_64)

subsection \<open>Reading the progress file\<close>

text \<open>
  C6. \<^verbatim>\<open>ReadProgress\<close> has no error result, and whatever the state of the progress file
  it leaves a usable baseline: when the file is absent, cannot be read, does not parse as
  a decimal 64-bit integer, or holds a negative number, \<open>Downloaded\<close> is 0; when it parses
  to a number \<open>v \<ge> 0\<close>, \<open>Downloaded\<close> and \<open>ResumedAt\<close> are both \<open>v\<close>; and nothing else makes
  \<open>Downloaded\<close> non-zero or changes \<open>ResumedAt\<close>.  In every case \<open>Downloaded\<close> is what the
  specification's \<open>read\<close> returns.
\<close>

theorem ReadProgress_baseline:
  "(fs w (ProgressPath d) = None \<longrightarrow> Downloaded (ReadProgress fl w d) = 0) \<and>
   (\<forall>e. read_fault fl (ProgressPath d) = Some e \<longrightarrow> Downloaded (ReadProgress fl w d) = 0) \<and>
   (\<forall>data e. ReadFile fl w (ProgressPath d) = Inr data \<and> ParseInt data = Inl e
        \<longrightarrow> Downloaded (ReadProgress fl w d) = 0) \<and>
   (\<forall>data v. ReadFile fl w (ProgressPath d) = Inr data \<and> ParseInt data = Inr v \<and> v < 0
        \<longrightarrow> Downloaded (ReadProgress fl w d) = 0) \<and>
   (\<forall>data v. ReadFile fl w (ProgressPath d) = Inr data \<and> ParseInt data = Inr v \<and> 0 \<le> v
        \<longrightarrow> sint (Downloaded (ReadProgress fl w d)) = v \<and> sint (ResumedAt (ReadProgress fl w d)) = v) \<and>
   (Downloaded (ReadProgress fl w d) \<noteq> 0 \<or> ResumedAt (ReadProgress fl w d) \<noteq> ResumedAt d
        \<longrightarrow> (\<exists>data v. ReadFile fl w (ProgressPath d) = Inr data \<and> ParseInt data = Inr v \<and> 0 \<le> v)) \<and>
   sint (Downloaded (ReadProgress fl w d)) = spec_read fl w (ProgressPath d)"
  by (auto simp: ReadProgress_def ReadFile_def spec_read_def ParseInt_sint
           split: sum.splits option.splits)

theorem ReadProgress_baseline_witness:
  "ReadFile no_faults (file_world ''f.progress'' ''1234'') ''f.progress'' = Inr ''1234'' \<and>
   ParseInt ''1234'' = Inr 1234 \<and>
   sint (Downloaded (ReadProgress no_faults (file_world ''f.progress'' ''1234'') (NewDownloader ''u'' ''f'' True))) = 1234 \<and>
   sint (ResumedAt (ReadProgress no_faults (file_world ''f.progress'' ''1234'') (NewDownloader ''u'' ''f'' True))) = 1234 \<and>
   fs empty_world ''f.progress'' = None \<and>
   Downloaded (ReadProgress no_faults empty_world (NewDownloader ''u'' ''f'' True)) = 0 \<and>
   ParseInt ''-7'' = Inr (- 7) \<and>
   Downloaded (ReadProgress no_faults (file_world ''f.progress'' ''-7'') (NewDownloader ''u'' ''f'' True)) = 0 \<and>
   ParseInt ''12x'' = Inl (ErrSyntax ''12x'') \<and>
   Downloaded (ReadProgress no_faults (file_world ''f.progress'' ''12x'') (NewDownloader ''u'' ''f'' True)) = 0"
proof -
  let ?d = "NewDownloader ''u'' ''f'' True"
  have p: "ProgressPath ?d = ''f.progress''" by (simp add: NewDownloader_def)
  have r: "\<And>c. ReadFile no_faults (file_world ''f.progress'' c) ''f.progress'' = Inr c"
    by (simp add: ReadFile_def no_faults_def file_world_def empty_world_def)
  have p1: "ParseInt ''1234'' = Inr 1234" by (simp add: ParseInt_def is_digit_def digit_val_def)
  have p2: "ParseInt ''-7'' = Inr (- 7)" by (simp add: ParseInt_def is_digit_def digit_val_def)
  have p3: "ParseInt ''12x'' = Inl (ErrSyntax ''12x'')" by (simp add: ParseInt_def is_digit_def digit_val_def)
  have a: "fs empty_world ''f.progress'' = None" by (simp add: empty_world_def)
  from ReadProgress_baseline [of "file_world ''f.progress'' ''1234''" ?d no_faults] r p1 p
  have g1: "sint (Downloaded (ReadProgress no_faults (file_world ''f.progress'' ''1234'') ?d)) = 1234 \<and>
            sint (ResumedAt (ReadProgress no_faults (file_world ''f.progress'' ''1234'') ?d)) = 1234"
    by simp
  from ReadProgress_baseline [of empty_world ?d no_faults] a p
  have g2: "Downloaded (ReadProgress no_faults empty_world ?d) = 0" by simp
  from ReadProgress_baseline [of "file_world ''f.progress'' ''-7''" ?d no_faults] r p2 p
  have g3: "Downloaded (ReadProgress no_faults (file_world ''f.progress'' ''-7'') ?d) = 0" by simp
  from ReadProgress_baseline [of "file_world ''f.progress'' ''12x''" ?d no_faults] r p3 p
  have g4: "Downloaded (ReadProgress no_faults (file_world ''f.progress'' ''12x'') ?d) = 0" by simp
  from r p1 p2 p3 a g1 g2 g3 g4 show ?thesis by simp
qed

subsection \<open>Building the request\<close>

lemma ReadProgress_spec_read:
  "sint (Downloaded (ReadProgress fl w d)) = spec_read fl w (ProgressPath d)"
  by (auto simp: ReadProgress_def spec_read_def ParseInt_sint split: sum.splits)

lemma ReadProgress_ResumedAt:
  "ResumedAt d = 0 \<Longrightarrow> sint (ResumedAt (ReadProgress fl w d)) = spec_read fl w (ProgressPath d)"
  by (auto simp: ReadProgress_def spec_read_def ParseInt_sint split: sum.splits)

lemma ReadProgress_other_fields:
  "Url (ReadProgress fl w d) = Url d" "ProgressPath (ReadProgress fl w d) = ProgressPath d"
  "UseProgressFile (ReadProgress fl w d) = UseProgressFile d"
  by (auto simp: ReadProgress_def split: sum.splits)

text \<open>
  C7. When \<^verbatim>\<open>CreateRequest\<close> returns a request, it is a \<^verbatim>\<open>GET\<close> of the URL whose only
  possible header is \<^verbatim>\<open>Range\<close>, and \<^verbatim>\<open>Range\<close> is set, to \<^verbatim>\<open>bytes=<baseline>-\<close>, exactly when
  \<open>UseProgressFile\<close> is true and the baseline read from the progress file is positive.
  With \<open>UseProgressFile\<close> the step leaves \<open>Downloaded\<close> at the baseline, and \<open>ResumedAt\<close>
  too: always when the baseline is positive, and for a baseline of 0 when \<open>ResumedAt\<close> was
  still 0, as \<^verbatim>\<open>NewDownloader\<close> returns it (the failure branches of \<^verbatim>\<open>ReadProgress\<close> do not
  write \<open>ResumedAt\<close>).  Without \<open>UseProgressFile\<close> the Downloader is not touched.
\<close>

theorem CreateRequest_range:
  assumes "CreateRequest fl w d = (Inr req, d')"
  shows "req_header req ''Range'' =
           (if UseProgressFile d \<and> 0 < spec_read fl w (ProgressPath d)
            then Some (''bytes='' @ show_int (spec_read fl w (ProgressPath d)) @ ''-'') else None) \<and>
         (\<forall>h. h \<noteq> ''Range'' \<longrightarrow> req_header req h = None) \<and>
         req_method req = ''GET'' \<and> req_url req = Url d \<and>
         (UseProgressFile d \<longrightarrow> sint (Downloaded d') = spec_read fl w (ProgressPath d)) \<and>
         (UseProgressFile d \<and> ResumedAt d = 0 \<longrightarrow> sint (ResumedAt d') = spec_read fl w (ProgressPath d)) \<and>
         (UseProgressFile d \<and> 0 < spec_read fl w (ProgressPath d)
            \<longrightarrow> sint (ResumedAt d') = spec_read fl w (ProgressPath d)) \<and>
         (\<not> UseProgressFile d \<longrightarrow> d' = d)"
proof (cases "UseProgressFile d")
  case False
  with assms show ?thesis
    by (auto simp: CreateRequest_def NewRequest_def split: option.splits)
next
  case True
  let ?d1 = "ReadProgress fl w d"
  let ?b = "spec_read fl w (ProgressPath d)"
  have b: "sint (Downloaded ?d1) = ?b" by (rule ReadProgress_spec_read)
  have pos: "0 <s Downloaded ?d1 \<longleftrightarrow> 0 < ?b" by (simp add: word_sless_alt b)
  have d': "d' = ?d1"
    using assms True by (auto simp: CreateRequest_def NewRequest_def Let_def split: option.splits if_splits)
  have r0: "0 < ?b \<Longrightarrow> sint (ResumedAt ?d1) = ?b"
    by (auto simp: ReadProgress_def spec_read_def ParseInt_sint split: sum.splits if_splits)
  from assms True pos b d' r0 show ?thesis
    by (auto simp: CreateRequest_def NewRequest_def Let_def ReadProgress_ResumedAt
             split: option.splits if_splits)
qed

theorem CreateRequest_range_witness:
  "CreateRequest no_faults (file_world ''f.progress'' ''1234'') (NewDownloader ''u'' ''f'' True) =
     (Inr \<lparr>req_method = ''GET'', req_url = ''u'',
           req_header = (\<lambda>_. None)(''Range'' := Some ''bytes=1234-'')\<rparr>,
      (NewDownloader ''u'' ''f'' True)\<lparr>Downloaded := 1234, ResumedAt := 1234\<rparr>) \<and>
   spec_read no_faults (file_world ''f.progress'' ''1234'') ''f.progress'' = 1234 \<and>
   sint (Downloaded ((NewDownloader ''u'' ''f'' True)\<lparr>Downloaded := 1234, ResumedAt := 1234\<rparr>)) = 1234 \<and>
   sint (ResumedAt ((NewDownloader ''u'' ''f'' True)\<lparr>Downloaded := 1234, ResumedAt := 1234\<rparr>)) = 1234"
proof -
  let ?w = "file_world ''f.progress'' ''1234''"
  let ?d = "NewDownloader ''u'' ''f'' True"
  have p1: "ParseInt ''1234'' = Inr 1234" by (simp add: ParseInt_def is_digit_def digit_val_def)
  have r: "ReadFile no_faults ?w ''f.progress'' = Inr ''1234''"
    by (simp add: ReadFile_def no_faults_def file_world_def empty_world_def)
  have sr: "spec_read no_faults ?w ''f.progress'' = 1234"
    by (simp add: spec_read_def r p1)
  have rp: "ReadProgress no_faults ?w ?d = ?d\<lparr>Downloaded := 1234, ResumedAt := 1234\<rparr>"
    by (simp add: ReadProgress_def NewDownloader_def r p1)
  have sh: "show_int 1234 = ''1234''"
    by (simp add: show_int_def show_nat.simps digit_char_def)
  have cr: "CreateRequest no_faults ?w ?d =
     (Inr \<lparr>req_method = ''GET'', req_url = ''u'',
           req_header = (\<lambda>_. None)(''Range'' := Some ''bytes=1234-'')\<rparr>,
      ?d\<lparr>Downloaded := 1234, ResumedAt := 1234\<rparr>)"
    unfolding CreateRequest_def NewRequest_def rp
    by (simp add: no_faults_def NewDownloader_def word_sless_alt sh)
  from CreateRequest_range [OF cr] sr
  have "sint (Downloaded (?d\<lparr>Downloaded := 1234, ResumedAt := 1234\<rparr>)) = 1234 \<and>
        sint (ResumedAt (?d\<lparr>Downloaded := 1234, ResumedAt := 1234\<rparr>)) = 1234"
    by (simp add: NewDownloader_def)
  with cr sr show ?thesis by simp
qed

subsection \<open>The streaming loops\<close>

lemma write_at_append:
  "write_at (p + length a) b (write_at p a old) = write_at p (a @ b) old"
  by (cases "p \<le> length old")
     (simp_all add: write_at_def min_def max_def add.commute add.left_commute)

lemma advanced_nil: "OutputFile d = Some f \<Longrightarrow> advanced [] f d = d"
  by (simp add: advanced_def)

lemma written_nil: "written [] f w = w"
  by (simp add: written_def write_at_def)

lemma write_chunk_passes:
  assumes "OutputFile d = Some f" "\<not> f_closed f" "rd_data r = [] \<or> wr_fault r = None"
  shows "write_chunk r d w = (None, advanced (rd_data r) f d, written (rd_data r) f w)"
  using assms
  by (auto simp: write_chunk_def File_Write_def advanced_def written_def write_at_def Let_def)

lemma advanced_advanced:
  "advanced b (f\<lparr>f_pos := f_pos f + length a\<rparr>) (advanced a f d) = advanced (a @ b) f d"
  by (simp add: advanced_def add.assoc)

lemma written_written:
  "written b (f\<lparr>f_pos := f_pos f + length a\<rparr>) (written a f w) = written (a @ b) f w"
  by (simp add: written_def write_at_append)

lemma DownloadChunks_passes:
  assumes "OutputFile d = Some f" "\<not> f_closed f" "list_all passes pre"
  shows "DownloadChunks (pre @ body) d w =
         DownloadChunks body (advanced (payload pre) f d) (written (payload pre) f w)"
  using assms
proof (induction pre arbitrary: d w f)
  case Nil
  then show ?case by (simp add: payload_def advanced_nil written_nil)
next
  case (Cons r pre)
  let ?f1 = "f\<lparr>f_pos := f_pos f + length (rd_data r)\<rparr>"
  let ?d1 = "advanced (rd_data r) f d"
  let ?w1 = "written (rd_data r) f w"
  from Cons.prems have pr: "passes r" and pre: "list_all passes pre"
    by simp_all
  from pr have r: "rd_err r = None" "rd_data r = [] \<or> wr_fault r = None"
    by (simp_all add: passes_def)
  have wc: "write_chunk r d w = (None, ?d1, ?w1)"
    using Cons.prems(1,2) r(2) by (rule write_chunk_passes)
  have o1: "OutputFile ?d1 = Some ?f1" "\<not> f_closed ?f1"
    using Cons.prems(2) by (simp_all add: advanced_def)
  have "DownloadChunks ((r # pre) @ body) d w = DownloadChunks (pre @ body) ?d1 ?w1"
    using wc r(1) by simp
  also have "\<dots> = DownloadChunks body (advanced (payload pre) ?f1 ?d1) (written (payload pre) ?f1 ?w1)"
    using o1 pre by (rule Cons.IH)
  also have "advanced (payload pre) ?f1 ?d1 = advanced (payload (r # pre)) f d"
    by (simp add: advanced_advanced payload_def)
  also have "written (payload pre) ?f1 ?w1 = written (payload (r # pre)) f w"
    by (simp add: written_written payload_def)
  finally show ?case .
qed

lemma written_now: "written bs f (w\<lparr>now := t\<rparr>) = (written bs f w)\<lparr>now := t\<rparr>"
  by (simp add: written_def)

lemma write_chunk_limited_passes:
  assumes "OutputFile d = Some f" "\<not> f_closed f" "rd_data r = [] \<or> wr_fault r = None"
  shows "\<exists>tb t. write_chunk_limited impl m st tb0 r d w =
           (None, tb, advanced (rd_data r) f d, (written (rd_data r) f w)\<lparr>now := t\<rparr>)"
proof (cases "rd_data r = []")
  case True
  have e1: "write_chunk_limited impl m st tb0 r d w = (None, tb0, d, w)"
    using True by (simp add: write_chunk_limited_def)
  have e2: "advanced (rd_data r) f d = d" using True assms(1) by (simp add: advanced_nil)
  have e3: "(written (rd_data r) f w)\<lparr>now := now w\<rparr> = w" using True by (simp add: written_nil)
  show ?thesis
    by (rule exI [of _ tb0], rule exI [of _ "now w"]) (simp add: e1 e2 e3)
next
  case False
  with assms have fw: "File_Write (wr_fault r) (OutputFile d) (rd_data r) w =
      (None, Some (f\<lparr>f_pos := f_pos f + length (rd_data r)\<rparr>), written (rd_data r) f w)"
    by (auto simp: File_Write_def written_def Let_def)
  let ?W = "written (rd_data r) f w"
  let ?s = "float_quot_trunc impl (tb0 + of_nat (length (rd_data r))) m * Second
              - word_of_int (now ?W - st)"
  have res: "write_chunk_limited impl m st tb0 r d w =
      (None, tb0 + of_nat (length (rd_data r)), advanced (rd_data r) f d,
       ?W\<lparr>now := (if 0 <s ?s then now ?W + sint ?s else now ?W)\<rparr>)"
    using False fw by (simp add: write_chunk_limited_def Let_def advanced_def)
  show ?thesis
    by (rule exI [of _ "tb0 + of_nat (length (rd_data r))"],
        rule exI [of _ "if 0 <s ?s then now ?W + sint ?s else now ?W"]) (rule res)
qed

lemma limit_loop_passes:
  assumes "OutputFile d = Some f" "\<not> f_closed f" "list_all passes pre"
  shows "\<exists>tb t. limit_loop impl m st tb0 (pre @ body) d w =
           limit_loop impl m st tb body (advanced (payload pre) f d) ((written (payload pre) f w)\<lparr>now := t\<rparr>)"
  using assms
proof (induction pre arbitrary: d w f tb0)
  case Nil
  have "w = (written (payload []) f w)\<lparr>now := now w\<rparr>" by (simp add: payload_def written_nil)
  moreover have "d = advanced (payload []) f d" using Nil by (simp add: payload_def advanced_nil)
  ultimately show ?case by (metis append_Nil)
next
  case (Cons r pre)
  let ?f1 = "f\<lparr>f_pos := f_pos f + length (rd_data r)\<rparr>"
  let ?d1 = "advanced (rd_data r) f d"
  from Cons.prems have pr: "passes r" and pre: "list_all passes pre" by simp_all
  from pr have r: "rd_err r = None" "rd_data r = [] \<or> wr_fault r = None"
    by (simp_all add: passes_def)
  obtain tb1 t1 where wc:
    "write_chunk_limited impl m st tb0 r d (w\<lparr>now := now w + int (rd_wait r)\<rparr>) =
       (None, tb1, ?d1, (written (rd_data r) f w)\<lparr>now := t1\<rparr>)"
    using write_chunk_limited_passes [OF Cons.prems(1,2) r(2), of impl m st tb0 "w\<lparr>now := now w + int (rd_wait r)\<rparr>"]
    by (auto simp: written_now)
  let ?w1 = "(written (rd_data r) f w)\<lparr>now := t1\<rparr>"
  have o1: "OutputFile ?d1 = Some ?f1" "\<not> f_closed ?f1"
    using Cons.prems(2) by (simp_all add: advanced_def)
  have step: "limit_loop impl m st tb0 ((r # pre) @ body) d w = limit_loop impl m st tb1 (pre @ body) ?d1 ?w1"
    using wc r(1) by simp
  obtain tb t where ih: "limit_loop impl m st tb1 (pre @ body) ?d1 ?w1 =
      limit_loop impl m st tb body (advanced (payload pre) ?f1 ?d1) ((written (payload pre) ?f1 ?w1)\<lparr>now := t\<rparr>)"
    using Cons.IH [OF o1 pre] by blast
  have a: "advanced (payload pre) ?f1 ?d1 = advanced (payload (r # pre)) f d"
    by (simp add: advanced_advanced payload_def)
  have b: "(written (payload pre) ?f1 ?w1)\<lparr>now := t\<rparr> = (written (payload (r # pre)) f w)\<lparr>now := t\<rparr>"
    by (simp add: written_now written_written payload_def)
  from step ih a b show ?case by metis
qed

lemma advanced_open:
  "\<not> f_closed f \<Longrightarrow> OutputFile (advanced bs f d) = Some (f\<lparr>f_pos := f_pos f + length bs\<rparr>)
     \<and> \<not> f_closed (f\<lparr>f_pos := f_pos f + length bs\<rparr>)"
  by (simp add: advanced_def)

lemma payload_snoc: "payload (pre @ [r]) = payload pre @ rd_data r"
  by (simp add: payload_def)

text \<open>
  C4. Let the output file be open, and let the loop first meet reads \<open>pre\<close> that neither
  carry an error nor fail to be written.  Then (1) after them the loop is still running,
  every chunk has been written at the file's offset, in order, and \<open>Downloaded\<close> has grown
  (with 64-bit wrap-around) by the number of bytes written; (2) if the \<^verbatim>\<open>Write\<close> of the next
  chunk fails, the loop returns that error at once and \<open>Downloaded\<close> counts the chunks
  written before it, the failed chunk not at all; (3) if the next read carries the end of
  the stream and its bytes, if any, are written, the loop returns \<^verbatim>\<open>nil\<close>, its bytes written
  and counted; (4) if it carries another error and its bytes, if any, are written, the
  loop returns that error, its bytes written and counted.  The reads after it are never
  asked for.  \<^verbatim>\<open>nil\<close> is returned in case (3) only.
\<close>

theorem DownloadChunks_contract:
  assumes "OutputFile d = Some f" "\<not> f_closed f" "list_all passes pre"
  shows "DownloadChunks pre d w = (None, advanced (payload pre) f d, written (payload pre) f w) \<and>
         (\<forall>r rest k e. rd_data r \<noteq> [] \<and> wr_fault r = Some (k, e) \<longrightarrow>
            fst (DownloadChunks (pre @ r # rest) d w) = Some (Some e) \<and>
            Downloaded (fst (snd (DownloadChunks (pre @ r # rest) d w)))
              = Downloaded d + of_nat (length (payload pre))) \<and>
         (\<forall>r rest. (rd_data r = [] \<or> wr_fault r = None) \<and> rd_err r = Some EOF \<longrightarrow>
            DownloadChunks (pre @ r # rest) d w =
              (Some None, advanced (payload pre @ rd_data r) f d, written (payload pre @ rd_data r) f w)) \<and>
         (\<forall>r rest e. (rd_data r = [] \<or> wr_fault r = None) \<and> rd_err r = Some e \<and> e \<noteq> EOF \<longrightarrow>
            DownloadChunks (pre @ r # rest) d w =
              (Some (Some e), advanced (payload pre @ rd_data r) f d, written (payload pre @ rd_data r) f w))"
proof -
  let ?f1 = "f\<lparr>f_pos := f_pos f + length (payload pre)\<rparr>"
  let ?d1 = "advanced (payload pre) f d"
  let ?w1 = "written (payload pre) f w"
  have pre: "\<And>body. DownloadChunks (pre @ body) d w = DownloadChunks body ?d1 ?w1"
    using assms by (rule DownloadChunks_passes)
  have o1: "OutputFile ?d1 = Some ?f1" "\<not> f_closed ?f1"
    using assms(2) by (simp_all add: advanced_def)
  have c1: "DownloadChunks pre d w = (None, ?d1, ?w1)"
    using pre [of "[]"] by simp
  have c2: "fst (DownloadChunks (pre @ r # rest) d w) = Some (Some e) \<and>
            Downloaded (fst (snd (DownloadChunks (pre @ r # rest) d w)))
              = Downloaded d + of_nat (length (payload pre))"
    if "rd_data r \<noteq> []" "wr_fault r = Some (k, e)" for r rest k e
  proof -
    have "write_chunk r ?d1 ?w1 =
        (Some e, ?d1\<lparr>OutputFile := Some (?f1\<lparr>f_pos := f_pos ?f1 + length (take k (rd_data r))\<rparr>)\<rparr>,
         written (take k (rd_data r)) ?f1 ?w1)"
      using that o1 by (simp add: write_chunk_def File_Write_def Let_def written_def)
    then show ?thesis
      by (simp add: pre advanced_def)
  qed
  have ok: "write_chunk r ?d1 ?w1 =
        (None, advanced (payload pre @ rd_data r) f d, written (payload pre @ rd_data r) f w)"
    if "rd_data r = [] \<or> wr_fault r = None" for r
    using write_chunk_passes [OF o1 that, of ?w1]
    by (simp add: advanced_advanced written_written)
  have c3: "DownloadChunks (pre @ r # rest) d w =
              (Some None, advanced (payload pre @ rd_data r) f d, written (payload pre @ rd_data r) f w)"
    if "rd_data r = [] \<or> wr_fault r = None" "rd_err r = Some EOF" for r rest
    using ok [OF that(1)] that(2) by (simp add: pre)
  have c4: "DownloadChunks (pre @ r # rest) d w =
              (Some (Some e), advanced (payload pre @ rd_data r) f d, written (payload pre @ rd_data r) f w)"
    if "rd_data r = [] \<or> wr_fault r = None" "rd_err r = Some e" "e \<noteq> EOF" for r rest e
    using ok [OF that(1)] that(2,3) by (simp add: pre)
  from c1 c2 c3 c4 show ?thesis by blast
qed

theorem DownloadChunks_contract_witness:
  "OutputFile d_open = Some open_file0 \<and> \<not> f_closed open_file0 \<and>
   list_all passes [chunk ''he'', chunk ''llo''] \<and>
   DownloadChunks [chunk ''he'', chunk ''llo'', eof] d_open (file_world ''f'' []) =
     (Some None, advanced ''hello'' open_file0 d_open, written ''hello'' open_file0 (file_world ''f'' [])) \<and>
   Downloaded (advanced ''hello'' open_file0 d_open) = 5 \<and>
   content (inodes (written ''hello'' open_file0 (file_world ''f'' [])) 0) = ''hello'' \<and>
   fst (DownloadChunks [chunk ''he'', chunk ''llo'', unwritable ''wor'' 1, eof] d_open (file_world ''f'' []))
     = Some (Some (OSError ''no space left on device'')) \<and>
   Downloaded (fst (snd (DownloadChunks [chunk ''he'', chunk ''llo'', unwritable ''wor'' 1, eof] d_open
     (file_world ''f'' [])))) = 5 \<and>
   DownloadChunks [chunk ''he'', chunk ''llo'', broken ''!'', eof] d_open (file_world ''f'' []) =
     (Some (Some (OSError ''connection reset'')), advanced ''hello!'' open_file0 d_open,
      written ''hello!'' open_file0 (file_world ''f'' []))"
proof -
  let ?w = "file_world ''f'' []"
  let ?pre = "[chunk ''he'', chunk ''llo'']"
  have h1: "OutputFile d_open = Some open_file0" by (simp add: d_open_def)
  have h2: "\<not> f_closed open_file0" by (simp add: open_file0_def)
  have h3: "list_all passes ?pre" by (simp add: passes_def chunk_def)
  have pl: "payload ?pre = ''hello''" by (simp add: payload_def chunk_def)
  note T = DownloadChunks_contract [OF h1 h2 h3, of ?w, unfolded pl]
  from T have c2: "\<And>r rest k e. rd_data r \<noteq> [] \<and> wr_fault r = Some (k, e) \<Longrightarrow>
            fst (DownloadChunks (?pre @ r # rest) d_open ?w) = Some (Some e) \<and>
            Downloaded (fst (snd (DownloadChunks (?pre @ r # rest) d_open ?w)))
              = Downloaded d_open + of_nat (length ''hello'')"
    by blast
  from T have c3: "\<And>r rest. (rd_data r = [] \<or> wr_fault r = None) \<and> rd_err r = Some EOF \<Longrightarrow>
            DownloadChunks (?pre @ r # rest) d_open ?w =
              (Some None, advanced (''hello'' @ rd_data r) open_file0 d_open,
               written (''hello'' @ rd_data r) open_file0 ?w)"
    by blast
  from T have c4: "\<And>r rest e. (rd_data r = [] \<or> wr_fault r = None) \<and> rd_err r = Some e \<and> e \<noteq> EOF \<Longrightarrow>
            DownloadChunks (?pre @ r # rest) d_open ?w =
              (Some (Some e), advanced (''hello'' @ rd_data r) open_file0 d_open,
               written (''hello'' @ rd_data r) open_file0 ?w)"
    by blast
  have g3: "DownloadChunks [chunk ''he'', chunk ''llo'', eof] d_open ?w =
     (Some None, advanced ''hello'' open_file0 d_open, written ''hello'' open_file0 ?w)"
    using c3 [of eof "[]"] by (simp add: eof_def)
  have g2: "fst (DownloadChunks [chunk ''he'', chunk ''llo'', unwritable ''wor'' 1, eof] d_open ?w)
       = Some (Some (OSError ''no space left on device'')) \<and>
     Downloaded (fst (snd (DownloadChunks [chunk ''he'', chunk ''llo'', unwritable ''wor'' 1, eof] d_open ?w))) = 5"
    using c2 [of "unwritable ''wor'' 1" 1 "OSError ''no space left on device''" "[eof]"]
    by (simp add: unwritable_def d_open_def NewDownloader_def)
  have g4: "DownloadChunks [chunk ''he'', chunk ''llo'', broken ''!'', eof] d_open ?w =
     (Some (Some (OSError ''connection reset'')), advanced ''hello!'' open_file0 d_open,
      written ''hello!'' open_file0 ?w)"
    using c4 [of "broken ''!''" "OSError ''connection reset''" "[eof]"] by (simp add: broken_def)
  have v1: "Downloaded (advanced ''hello'' open_file0 d_open) = 5"
    by (simp add: advanced_def d_open_def NewDownloader_def)
  have v2: "content (inodes (written ''hello'' open_file0 ?w) 0) = ''hello''"
    by (simp add: written_def open_file0_def file_world_def empty_world_def write_at_def)
  from h1 h2 h3 g2 g3 g4 v1 v2 show ?thesis by simp
qed

text \<open>
  C10. When a read delivers \<open>n > 0\<close> bytes together with an error other than the end of the
  stream, and the write of those bytes does not fail, both \<^verbatim>\<open>DownloadChunks\<close> and
  \<^verbatim>\<open>DownloadChunksWithLimit\<close> write the bytes after those of the earlier reads, add \<open>n\<close> to
  \<open>Downloaded\<close>, and only then return the read's error.
\<close>

theorem data_with_error_kept:
  assumes "OutputFile d = Some f" "\<not> f_closed f" "list_all passes pre"
    and "rd_data r \<noteq> []" "wr_fault r = None" "rd_err r = Some e" "e \<noteq> EOF"
  shows "DownloadChunks (pre @ r # rest) d w =
           (Some (Some e), advanced (payload pre @ rd_data r) f d, written (payload pre @ rd_data r) f w) \<and>
         (\<exists>t. DownloadChunksWithLimit impl (pre @ r # rest) maxSpeedBytes d w =
           (Some (Some e), advanced (payload pre @ rd_data r) f d,
            (written (payload pre @ rd_data r) f w)\<lparr>now := t\<rparr>))"
proof -
  let ?f1 = "f\<lparr>f_pos := f_pos f + length (payload pre)\<rparr>"
  let ?d1 = "advanced (payload pre) f d"
  let ?w1 = "written (payload pre) f w"
  have o1: "OutputFile ?d1 = Some ?f1" "\<not> f_closed ?f1"
    using assms(2) by (simp_all add: advanced_def)
  have wr: "rd_data r = [] \<or> wr_fault r = None" using assms(5) by simp
  have "DownloadChunks (pre @ r # rest) d w = DownloadChunks (r # rest) ?d1 ?w1"
    using assms(1-3) by (rule DownloadChunks_passes)
  moreover have "write_chunk r ?d1 ?w1 =
        (None, advanced (payload pre @ rd_data r) f d, written (payload pre @ rd_data r) f w)"
    using write_chunk_passes [OF o1 wr, of ?w1] by (simp add: advanced_advanced written_written)
  ultimately have A: "DownloadChunks (pre @ r # rest) d w =
           (Some (Some e), advanced (payload pre @ rd_data r) f d, written (payload pre @ rd_data r) f w)"
    using assms(6,7) by simp
  obtain tb t where pre: "limit_loop impl maxSpeedBytes (now w) 0 (pre @ r # rest) d w =
      limit_loop impl maxSpeedBytes (now w) tb (r # rest) ?d1 (?w1\<lparr>now := t\<rparr>)"
    using limit_loop_passes [OF assms(1-3)] by blast
  obtain tb' t' where wc: "write_chunk_limited impl maxSpeedBytes (now w) tb r ?d1
        (?w1\<lparr>now := t + int (rd_wait r)\<rparr>) =
      (None, tb', advanced (rd_data r) ?f1 ?d1, (written (rd_data r) ?f1 ?w1)\<lparr>now := t'\<rparr>)"
    using write_chunk_limited_passes [OF o1 wr, of impl maxSpeedBytes "now w" tb "?w1\<lparr>now := t + int (rd_wait r)\<rparr>"]
    by (auto simp: written_now)
  have "limit_loop impl maxSpeedBytes (now w) tb (r # rest) ?d1 (?w1\<lparr>now := t\<rparr>) =
      (Some (Some e), advanced (payload pre @ rd_data r) f d,
       (written (payload pre @ rd_data r) f w)\<lparr>now := t'\<rparr>)"
    using wc assms(6,7) by (simp add: advanced_advanced written_written)
  with pre have "DownloadChunksWithLimit impl (pre @ r # rest) maxSpeedBytes d w =
      (Some (Some e), advanced (payload pre @ rd_data r) f d,
       (written (payload pre @ rd_data r) f w)\<lparr>now := t'\<rparr>)"
    by (simp add: DownloadChunksWithLimit_def)
  with A show ?thesis by blast
qed

theorem data_with_error_kept_witness:
  "OutputFile d_open = Some open_file0 \<and> \<not> f_closed open_file0 \<and> list_all passes [chunk ''he''] \<and>
   rd_data (broken ''llo'') \<noteq> [] \<and> wr_fault (broken ''llo'') = None \<and>
   rd_err (broken ''llo'') = Some (OSError ''connection reset'') \<and> OSError ''connection reset'' \<noteq> EOF \<and>
   DownloadChunks [chunk ''he'', broken ''llo''] d_open (file_world ''f'' []) =
     (Some (Some (OSError ''connection reset'')), advanced ''hello'' open_file0 d_open,
      written ''hello'' open_file0 (file_world ''f'' [])) \<and>
   (\<exists>t. DownloadChunksWithLimit (\<lambda>a b. 0) [chunk ''he'', broken ''llo''] 1000 d_open (file_world ''f'' []) =
     (Some (Some (OSError ''connection reset'')), advanced ''hello'' open_file0 d_open,
      (written ''hello'' open_file0 (file_world ''f'' []))\<lparr>now := t\<rparr>)) \<and>
   Downloaded (advanced ''hello'' open_file0 d_open) = 5 \<and>
   content (inodes (written ''hello'' open_file0 (file_world ''f'' [])) 0) = ''hello''"
proof -
  let ?w = "file_world ''f'' []"
  have h1: "OutputFile d_open = Some open_file0" by (simp add: d_open_def)
  have h2: "\<not> f_closed open_file0" by (simp add: open_file0_def)
  have h3: "list_all passes [chunk ''he'']" by (simp add: passes_def chunk_def)
  have h4: "rd_data (broken ''llo'') \<noteq> []" by (simp add: broken_def)
  have h5: "wr_fault (broken ''llo'') = None" by (simp add: broken_def)
  have h6: "rd_err (broken ''llo'') = Some (OSError ''connection reset'')" by (simp add: broken_def)
  have h7: "OSError ''connection reset'' \<noteq> EOF" by simp
  have pl: "payload [chunk ''he''] @ rd_data (broken ''llo'') = ''hello''"
    by (simp add: payload_def chunk_def broken_def)
  note T = data_with_error_kept [OF h1 h2 h3 h4 h5 h6 h7, of "[]" ?w "\<lambda>a b. 0" 1000, unfolded pl]
  have v1: "Downloaded (advanced ''hello'' open_file0 d_open) = 5"
    by (simp add: advanced_def d_open_def NewDownloader_def)
  have v2: "content (inodes (written ''hello'' open_file0 ?w) 0) = ''hello''"
    by (simp add: written_def open_file0_def file_world_def empty_world_def write_at_def)
  from T h1 h2 h3 h4 h5 h6 v1 v2 show ?thesis by simp
qed

subsection \<open>The reporter's tick\<close>

lemmas file_ops = File_Seek_def File_Truncate_def File_Write_def File_Sync_def

lemma sint64_range: "- (2 ^ 63) \<le> sint (x :: int64) \<and> sint x < 2 ^ 63"
  using sint_ge [of x] sint_lt [of x] by simp

lemma show_int_nonempty: "show_int i \<noteq> []"
  by (simp add: show_int_def show_nat_nonempty)

lemma tick_open:
  assumes "ProgressFile d = Some pf" "\<not> f_closed pf"
  shows "tick d w =
     (d\<lparr>PassedMilliSc := PassedMilliSc d + 1000,
        ProgressFile := Some (pf\<lparr>f_pos := length (show_int (sint (Downloaded d)))\<rparr>)\<rparr>,
      (if 0 <s TotalSize d then w\<lparr>trace := trace w @ [EvProgressInfo (Downloaded d) (TotalSize d)]\<rparr> else w)
        \<lparr>inodes := (inodes w)(f_ino pf :=
            (inodes w (f_ino pf))\<lparr>content := show_int (sint (Downloaded d)),
                                   stable := show_int (sint (Downloaded d))\<rparr>)\<rparr>)"
  using assms
  by (simp add: tick_def file_ops Let_def write_at_def show_int_nonempty)

lemma tick_closed:
  assumes "ProgressFile d = Some pf" "f_closed pf"
  shows "tick d w =
     (d\<lparr>PassedMilliSc := PassedMilliSc d + 1000\<rparr>,
      (if 0 <s TotalSize d then w\<lparr>trace := trace w @ [EvProgressInfo (Downloaded d) (TotalSize d)]\<rparr> else w))"
  using assms
  by (simp add: tick_def file_ops Let_def)

lemma tick_nil:
  assumes "ProgressFile d = None"
  shows "tick d w =
     (d\<lparr>PassedMilliSc := PassedMilliSc d + 1000\<rparr>,
      (if 0 <s TotalSize d then w\<lparr>trace := trace w @ [EvProgressInfo (Downloaded d) (TotalSize d)]\<rparr> else w))"
  using assms
  by (simp add: tick_def Let_def)

text \<open>
  C8. On a tick with the progress file open, whatever \<open>TotalSize\<close> is (known or 0) and
  whatever the file held before and wherever its offset stood, the four calls (seek to 0,
  truncate to 0, write the text, sync) leave the file holding exactly the decimal text of
  the value of \<open>Downloaded\<close> loaded at the start of the tick, in its current content and on
  stable storage alike, so that it parses back to that value; no other file and no path
  is touched.
\<close>

theorem tick_persists:
  assumes "ProgressFile d = Some pf" "\<not> f_closed pf"
  shows "content (inodes (snd (tick d w)) (f_ino pf)) = show_int (sint (Downloaded d)) \<and>
         stable (inodes (snd (tick d w)) (f_ino pf)) = show_int (sint (Downloaded d)) \<and>
         ParseInt (content (inodes (snd (tick d w)) (f_ino pf))) = Inr (sint (Downloaded d)) \<and>
         ProgressFile (fst (tick d w)) = Some (pf\<lparr>f_pos := length (show_int (sint (Downloaded d)))\<rparr>) \<and>
         (\<forall>i. i \<noteq> f_ino pf \<longrightarrow> inodes (snd (tick d w)) i = inodes w i) \<and>
         fs (snd (tick d w)) = fs w \<and> Downloaded (fst (tick d w)) = Downloaded d"
  using sint64_range [of "Downloaded d"]
  by (simp add: tick_open [OF assms] ParseInt_show_int)

theorem tick_persists_witness:
  "ProgressFile d_ticking = Some progress_file7 \<and> \<not> f_closed progress_file7 \<and>
   TotalSize d_ticking = 0 \<and>
   content (inodes (file_world ''f.progress'' ''5000000'') (f_ino progress_file7)) = ''5000000'' \<and>
   content (inodes (snd (tick d_ticking (file_world ''f.progress'' ''5000000''))) (f_ino progress_file7)) = ''500'' \<and>
   stable (inodes (snd (tick d_ticking (file_world ''f.progress'' ''5000000''))) (f_ino progress_file7)) = ''500'' \<and>
   ParseInt ''500'' = Inr 500"
proof -
  let ?w = "file_world ''f.progress'' ''5000000''"
  have h1: "ProgressFile d_ticking = Some progress_file7" by (simp add: d_ticking_def)
  have h2: "\<not> f_closed progress_file7" by (simp add: progress_file7_def)
  have t: "TotalSize d_ticking = 0" by (simp add: d_ticking_def NewDownloader_def)
  have c: "content (inodes ?w (f_ino progress_file7)) = ''5000000''"
    by (simp add: file_world_def empty_world_def progress_file7_def)
  have v: "sint (Downloaded d_ticking) = 500" by (simp add: d_ticking_def)
  have sh: "show_int 500 = ''500''" by (simp add: show_int_def show_nat.simps digit_char_def)
  have p: "ParseInt ''500'' = Inr 500" by (simp add: ParseInt_def is_digit_def digit_val_def)
  from tick_persists [OF h1 h2, of ?w]
  have g: "content (inodes (snd (tick d_ticking ?w)) (f_ino progress_file7)) = ''500'' \<and>
           stable (inodes (snd (tick d_ticking ?w)) (f_ino progress_file7)) = ''500'' \<and>
           ParseInt (content (inodes (snd (tick d_ticking ?w)) (f_ino progress_file7))) = Inr 500"
    by (simp add: v sh p)
  from g p h1 h2 t c show ?thesis by simp
qed

subsection \<open>The rate limit\<close>

text \<open>
  The expected duration is the quotient of the bytes moved by the cap, with its fraction
  dropped by the conversion to \<^verbatim>\<open>time.Duration\<close> before the multiplication by
  \<^verbatim>\<open>time.Second\<close>: a whole number of seconds.  It is 0 as long as fewer bytes than the cap
  have been moved, and then the loop does not sleep, however fast the source is.
\<close>

lemma float_quot_trunc_below:
  assumes "0 \<le> sint a" "sint a < sint b" "sint b < 2 ^ 52"
  shows "float_quot_trunc impl a b = 0"
proof -
  from assms have "b \<noteq> 0" by auto
  moreover from assms have "\<bar>sint a\<bar> < 2 ^ 52" "\<bar>sint b\<bar> < 2 ^ 52" by auto
  moreover from assms have "tdiv (sint a) (sint b) = 0" by (simp add: tdiv_def)
  ultimately show ?thesis by (simp add: float_quot_trunc_def)
qed

lemma sint_add_small:
  assumes "sint (tb :: int64) = k" "0 \<le> k" "k + int n < 2 ^ 52"
  shows "sint (tb + of_nat n) = k + int n"
proof -
  have n: "sint (of_nat n :: int64) = int n"
    using assms(2,3) by (simp add: signed_of_nat signed_take_bit_int_eq_self)
  have "sint (tb + of_nat n) = signed_take_bit 63 (k + int n)"
    by (simp add: sint_word_ariths n assms(1))
  also have "\<dots> = k + int n"
    by (rule signed_take_bit_int_eq_self) (use assms in auto)
  finally show ?thesis .
qed

lemma no_sleep_needed:
  assumes "0 \<le> el" "el < 2 ^ 62"
  shows "\<not> 0 <s (0 :: int64) - word_of_int el"
proof -
  have "sint (word_of_int el :: int64) = el"
    by (rule sint_word_of_int_64) (use assms in auto)
  then have "sint ((0 :: int64) - word_of_int el) = signed_take_bit 63 (- el)"
    by (simp add: sint_word_ariths)
  also have "\<dots> = - el"
    by (rule signed_take_bit_int_eq_self) (use assms in auto)
  finally show ?thesis using assms by (simp add: word_sless_alt)
qed

lemma write_chunk_limited_below_cap:
  assumes "OutputFile d = Some f" "\<not> f_closed f" "rd_data r = [] \<or> wr_fault r = None"
    and "sint tb = k" "0 \<le> k" "k + int (length (rd_data r)) < sint m" "sint m < 2 ^ 52"
    and "0 \<le> now w - st" "now w - st < 2 ^ 62"
  shows "write_chunk_limited impl m st tb r d w =
           (None, tb + of_nat (length (rd_data r)), advanced (rd_data r) f d, written (rd_data r) f w)"
proof (cases "rd_data r = []")
  case True
  then show ?thesis
    using assms(1) by (simp add: write_chunk_limited_def advanced_nil written_nil)
next
  case False
  with assms(3) have nf: "wr_fault r = None" by simp
  have s: "sint (tb + of_nat (length (rd_data r))) = k + int (length (rd_data r))"
    by (rule sint_add_small) (use assms in auto)
  have q: "float_quot_trunc impl (tb + of_nat (length (rd_data r))) m = 0"
    by (rule float_quot_trunc_below) (use s assms in simp_all)
  have sl: "\<not> 0 <s (0 :: int64) - word_of_int (now w - st)"
    using assms(8,9) by (rule no_sleep_needed)
  have nw: "now (written (rd_data r) f w) = now w" by (simp add: written_def)
  have fw: "File_Write None (Some f) (rd_data r) w =
      (None, Some (f\<lparr>f_pos := f_pos f + length (rd_data r)\<rparr>), written (rd_data r) f w)"
    using assms(2) by (simp add: File_Write_def written_def Let_def)
  have "write_chunk_limited impl m st tb r d w =
      (let w1 = written (rd_data r) f w;
           sleepDuration = float_quot_trunc impl (tb + of_nat (length (rd_data r))) m * Second
                             - word_of_int (now w1 - st)
       in if 0 <s sleepDuration
          then (None, tb + of_nat (length (rd_data r)), advanced (rd_data r) f d, w1\<lparr>now := now w1 + sint sleepDuration\<rparr>)
          else (None, tb + of_nat (length (rd_data r)), advanced (rd_data r) f d, w1))"
    using False nf assms(1) fw by (simp add: write_chunk_limited_def Let_def advanced_def)
  also have "\<dots> = (None, tb + of_nat (length (rd_data r)), advanced (rd_data r) f d, written (rd_data r) f w)"
    unfolding Let_def q nw using sl by simp
  finally show ?thesis .
qed

lemma limit_loop_below_cap:
  assumes "OutputFile d = Some f" "\<not> f_closed f" "list_all passes pre"
    and "sint tb = k" "0 \<le> k" "k + int (length (payload pre)) < sint m" "sint m < 2 ^ 52"
    and "0 \<le> now w - st" "now w - st + int (sum_list (map rd_wait pre)) < 2 ^ 62"
  shows "limit_loop impl m st tb (pre @ body) d w =
         limit_loop impl m st (tb + of_nat (length (payload pre))) body
           (advanced (payload pre) f d)
           ((written (payload pre) f w)\<lparr>now := now w + int (sum_list (map rd_wait pre))\<rparr>)"
  using assms
proof (induction pre arbitrary: d w f tb k)
  case Nil
  then show ?case by (simp add: payload_def advanced_nil written_nil)
next
  case (Cons r pre)
  let ?n = "length (rd_data r)"
  let ?f1 = "f\<lparr>f_pos := f_pos f + ?n\<rparr>"
  let ?d1 = "advanced (rd_data r) f d"
  let ?w0 = "w\<lparr>now := now w + int (rd_wait r)\<rparr>"
  let ?w1 = "written (rd_data r) f ?w0"
  from Cons.prems have pr: "passes r" and pre: "list_all passes pre" by simp_all
  from pr have r: "rd_err r = None" "rd_data r = [] \<or> wr_fault r = None"
    by (simp_all add: passes_def)
  have len: "length (payload (r # pre)) = ?n + length (payload pre)" by (simp add: payload_def)
  have wc: "write_chunk_limited impl m st tb r d ?w0 = (None, tb + of_nat ?n, ?d1, ?w1)"
    by (rule write_chunk_limited_below_cap [where k = k])
       (use Cons.prems r len in auto)
  have o1: "OutputFile ?d1 = Some ?f1" "\<not> f_closed ?f1"
    using Cons.prems(2) by (simp_all add: advanced_def)
  have s1: "sint (tb + of_nat ?n) = k + int ?n"
    by (rule sint_add_small) (use Cons.prems len in auto)
  have step: "limit_loop impl m st tb ((r # pre) @ body) d w =
              limit_loop impl m st (tb + of_nat ?n) (pre @ body) ?d1 ?w1"
    using wc r(1) by simp
  have ih: "limit_loop impl m st (tb + of_nat ?n) (pre @ body) ?d1 ?w1 =
         limit_loop impl m st (tb + of_nat ?n + of_nat (length (payload pre))) body
           (advanced (payload pre) ?f1 ?d1)
           ((written (payload pre) ?f1 ?w1)\<lparr>now := now ?w1 + int (sum_list (map rd_wait pre))\<rparr>)"
    by (rule Cons.IH [where k = "k + int ?n"])
       (use o1 pre s1 Cons.prems len in \<open>auto simp: written_def\<close>)
  have a: "advanced (payload pre) ?f1 ?d1 = advanced (payload (r # pre)) f d"
    by (simp add: advanced_advanced payload_def)
  have nw1: "now ?w1 = now w + int (rd_wait r)" by (simp add: written_def)
  have b: "(written (payload pre) ?f1 ?w1)\<lparr>now := now ?w1 + int (sum_list (map rd_wait pre))\<rparr>
           = (written (payload (r # pre)) f w)\<lparr>now := now w + int (sum_list (map rd_wait (r # pre)))\<rparr>"
    unfolding nw1 by (simp add: written_now written_written payload_def add.assoc)
  have c: "tb + of_nat ?n + of_nat (length (payload pre)) = tb + of_nat (length (payload (r # pre)))"
    by (simp add: len)
  show ?case unfolding step ih a b c ..
qed

text \<open>
  C9. The claim has the loop sleep, after each chunk, for the time the bytes moved so far
  should have taken at the cap, less the time elapsed, so that the average rate exceeds
  the cap by one chunk at most.  With a cap of 1000 bytes per second and a source that
  delivers three chunks of 300 bytes one millisecond apart and then ends,
  \<^verbatim>\<open>DownloadChunksWithLimit\<close> returns \<^verbatim>\<open>nil\<close> with the clock at 3 ms, all 900 bytes written and
  counted: it has not slept at all, where the cap and one chunk of burst allow
  \<open>1000 * 0.003 + 300 = 303\<close> bytes in that time.
\<close>

theorem limit_bursts_below_cap:
  "DownloadChunksWithLimit (\<lambda>a b. 0) fast_body 1000 d_open (file_world ''f'' []) =
     (Some None, advanced (replicate 900 (CHR ''x'')) open_file0 d_open,
      (written (replicate 900 (CHR ''x'')) open_file0 (file_world ''f'' []))\<lparr>now := 3000000\<rparr>) \<and>
   now (file_world ''f'' []) = 0 \<and>
   sint (Downloaded (advanced (replicate 900 (CHR ''x'')) open_file0 d_open)) = 900"
proof -
  let ?w = "file_world ''f'' []"
  let ?pre = "[timed_chunk 300 1000000, timed_chunk 300 1000000, timed_chunk 300 1000000]"
  have h1: "OutputFile d_open = Some open_file0" by (simp add: d_open_def)
  have h2: "\<not> f_closed open_file0" by (simp add: open_file0_def)
  have h3: "list_all passes ?pre" by (simp add: passes_def timed_chunk_def)
  have pl: "payload ?pre = replicate 900 (CHR ''x'')"
    by (simp add: payload_def timed_chunk_def flip: replicate_add)
  have n0: "now ?w = 0" by (simp add: file_world_def empty_world_def)
  have wt: "sum_list (map rd_wait ?pre) = 3000000" by (simp add: timed_chunk_def)
  have p6: "0 + int (length (payload ?pre)) < sint (1000 :: int64)" by (simp add: pl)
  have p8: "0 \<le> now ?w - 0" by (simp add: n0)
  have p9: "now ?w - 0 + int (sum_list (map rd_wait ?pre)) < 2 ^ 62" by (simp add: n0 timed_chunk_def)
  have "limit_loop (\<lambda>a b. 0) 1000 0 0 (?pre @ [eof]) d_open ?w =
        limit_loop (\<lambda>a b. 0) 1000 0 (0 + of_nat (length (payload ?pre))) [eof]
          (advanced (payload ?pre) open_file0 d_open)
          ((written (payload ?pre) open_file0 ?w)\<lparr>now := now ?w + int (sum_list (map rd_wait ?pre))\<rparr>)"
    by (rule limit_loop_below_cap [OF h1 h2 h3 _ _ p6 _ p8 p9]) simp_all
  also have "\<dots> = (Some None, advanced (replicate 900 (CHR ''x'')) open_file0 d_open,
      (written (replicate 900 (CHR ''x'')) open_file0 ?w)\<lparr>now := 3000000\<rparr>)"
    unfolding pl n0 wt by (simp add: eof_def write_chunk_limited_def)
  finally have "DownloadChunksWithLimit (\<lambda>a b. 0) fast_body 1000 d_open ?w =
     (Some None, advanced (replicate 900 (CHR ''x'')) open_file0 d_open,
      (written (replicate 900 (CHR ''x'')) open_file0 ?w)\<lparr>now := 3000000\<rparr>)"
    by (simp add: DownloadChunksWithLimit_def fast_body_def n0)
  moreover have "sint (Downloaded (advanced (replicate 900 (CHR ''x'')) open_file0 d_open)) = 900"
    by (simp add: advanced_def d_open_def NewDownloader_def)
  ultimately show ?thesis using n0 by simp
qed

subsection \<open>The loop and the reporter side by side\<close>

lemma sint_add_nat_le:
  assumes "n < 2 ^ 63"
  shows "sint ((x :: int64) + of_nat n) \<le> sint x + int n"
proof -
  have n: "sint (of_nat n :: int64) = int n"
    using assms by (simp add: signed_of_nat signed_take_bit_int_eq_self)
  have lo: "- (2 ^ 63) \<le> sint x + int n" using sint64_range [of x] by simp
  have eq: "sint (x + of_nat n) = signed_take_bit 63 (sint x + int n)"
    by (simp add: sint_word_ariths n)
  show ?thesis
  proof (cases "sint x + int n < 2 ^ 63")
    case True
    with lo have "signed_take_bit 63 (sint x + int n) = sint x + int n"
      by (intro signed_take_bit_int_eq_self) auto
    with eq show ?thesis by simp
  next
    case False
    then have "signed_take_bit 63 (sint x + int n) \<le> sint x + int n - 2 ^ Suc 63"
      by (intro signed_take_bit_int_less_eq) auto
    with eq show ?thesis by simp
  qed
qed

lemma writer_step_inv: "streaming_inv i s \<Longrightarrow> streaming_inv i (writer_step s)"
  by (auto simp: streaming_inv_def writer_step_def File_Write_def Let_def fits_def
           split: option.splits wpc.splits list.splits if_splits prod.splits
           intro: order_trans [OF sint_add_nat_le])

lemma ticker_fires_inv: "streaming_inv i s \<Longrightarrow> streaming_inv i (reporter_move ticker_fires s)"
  by (auto simp: streaming_inv_def reporter_move_def ticker_fires_def tick_open Let_def
           split: option.splits wpc.splits)

lemma stop_observed_inv: "streaming_inv i s \<Longrightarrow> streaming_inv i (reporter_move stop_observed s)"
  by (auto simp: streaming_inv_def reporter_move_def stop_observed_def Let_def
           split: option.splits wpc.splits)

lemma step_inv: "streaming_inv i s \<Longrightarrow> streaming_inv i (step a s)"
  by (cases a) (simp_all add: writer_step_inv ticker_fires_inv stop_observed_inv)

lemma run_inv: "streaming_inv i s \<Longrightarrow> streaming_inv i (run acts s)"
  unfolding run_def by (induction acts arbitrary: s) (simp_all add: step_inv)

lemma run_append: "run (a @ b) s = run b (run a s)"
  by (simp add: run_def)

lemma streaming_inv_le:
  "streaming_inv i s \<Longrightarrow> OutputFile (s_d s) = Some fo \<Longrightarrow> sint (Downloaded (s_d s)) \<le> int (f_pos fo)"
  by (auto simp: streaming_inv_def split: option.splits wpc.splits)

lemma stream_start_inv:
  assumes "OutputFile d = Some fo" "sint (Downloaded d) \<le> int (f_pos fo)"
      and "ProgressFile d = Some pf" "\<not> f_closed pf" "list_all fits (Body resp)"
  shows "streaming_inv (f_ino pf) (stream_start resp d w)"
  using assms
  by (simp add: streaming_inv_def stream_start_def ManageProgressPrinter_def print_line_def)

lemma ticked_inv:
  assumes "streaming_inv i s"
  shows "\<exists>fo. OutputFile (s_d (step TickerFires s)) = Some fo \<and>
              content (inodes (s_w (step TickerFires s)) i) = show_int (sint (Downloaded (s_d s))) \<and>
              stable (inodes (s_w (step TickerFires s)) i) = show_int (sint (Downloaded (s_d s))) \<and>
              sint (Downloaded (s_d s)) \<le> int (f_pos fo)"
  using assms
  by (auto simp: streaming_inv_def reporter_move_def ticker_fires_def tick_open Let_def
           split: option.splits wpc.splits)

text \<open>
  C2, as amended.  Take the state in which \<^verbatim>\<open>Download\<close> starts the loop: the output file
  open with its offset at \<open>Downloaded\<close> (the seek), the progress file open, the goroutine
  just started.  After any interleaving of the loop's calls and the reporter that ends
  with a tick, the progress file holds, in its content and on stable storage, a number
  that is at most the offset of the output file, that is, the resume offset plus the
  bytes that \<^verbatim>\<open>Write\<close> has taken so far.  (The claim compares with the bytes of the output
  file that have reached stable storage; see the counterexample below.)
\<close>

theorem sidecar_at_most_offset:
  assumes "OutputFile d = Some fo" "0 \<le> sint (Downloaded d)" "f_pos fo = nat (sint (Downloaded d))"
      and "ProgressFile d = Some pf" "\<not> f_closed pf" "list_all fits (Body resp)"
  shows "\<exists>fo' v. OutputFile (s_d (run (acts @ [TickerFires]) (stream_start resp d w))) = Some fo' \<and>
           ParseInt (content (inodes (s_w (run (acts @ [TickerFires]) (stream_start resp d w))) (f_ino pf))) = Inr v \<and>
           ParseInt (stable (inodes (s_w (run (acts @ [TickerFires]) (stream_start resp d w))) (f_ino pf))) = Inr v \<and>
           v \<le> int (f_pos fo')"
proof -
  let ?s1 = "run acts (stream_start resp d w)"
  have "sint (Downloaded d) \<le> int (f_pos fo)" using assms(2,3) by simp
  then have "streaming_inv (f_ino pf) (stream_start resp d w)"
    using assms(1,4,5,6) by (intro stream_start_inv) auto
  then have "streaming_inv (f_ino pf) ?s1" by (rule run_inv)
  then obtain fo' where t:
      "OutputFile (s_d (step TickerFires ?s1)) = Some fo'"
      "content (inodes (s_w (step TickerFires ?s1)) (f_ino pf)) = show_int (sint (Downloaded (s_d ?s1)))"
      "stable (inodes (s_w (step TickerFires ?s1)) (f_ino pf)) = show_int (sint (Downloaded (s_d ?s1)))"
      "sint (Downloaded (s_d ?s1)) \<le> int (f_pos fo')"
    using ticked_inv by blast
  have r: "run (acts @ [TickerFires]) (stream_start resp d w) = step TickerFires ?s1"
    by (simp add: run_def)
  have p: "ParseInt (show_int (sint (Downloaded (s_d ?s1)))) = Inr (sint (Downloaded (s_d ?s1)))"
    using sint64_range [of "Downloaded (s_d ?s1)"] by (simp add: ParseInt_show_int)
  show ?thesis
    unfolding r using t p by auto
qed

lemmas run_simps = run_def stream_start_def writer_step_def reporter_move_def ticker_fires_def
  ManageProgressPrinter_def print_line_def File_Write_def write_at_def Let_def

lemma s_ticked_eval:
  "OutputFile (s_d s_ticked) = Some \<lparr>f_ino = 0, f_pos = 5, f_closed = False\<rparr> \<and>
   inodes (s_w s_ticked) 0 = \<lparr>content = ''hello'', stable = []\<rparr> \<and>
   inodes (s_w s_ticked) 1 = \<lparr>content = ''5'', stable = ''5''\<rparr> \<and>
   Downloaded (s_d s_ticked) = 5 \<and> s_pc s_ticked = AtCheck (chunk ''hello'')"
  by (simp add: s_ticked_def run_simps hello_resp_def d_hello_def w_files_def empty_world_def
        NewDownloader_def chunk_def eof_def tick_def file_ops show_int_def show_nat.simps digit_char_def)

subsection \<open>What \<^verbatim>\<open>Download\<close> does to the files and to the goroutine\<close>

lemma background_refl: "background dw dw"
  by (simp add: background_def)

lemma background_trans: "background a b \<Longrightarrow> background b c \<Longrightarrow> background a c"
  by (simp add: background_def)

lemma tick_background: "background (d, w) (tick d w)"
proof (cases "ProgressFile d")
  case None
  then show ?thesis by (auto simp: tick_nil background_def foreground_def)
next
  case (Some pf)
  then show ?thesis
    by (cases "f_closed pf") (auto simp: tick_open tick_closed background_def foreground_def)
qed

lemma ticker_fires_background: "background dw (ticker_fires dw)"
  using tick_background [of "fst dw" "snd dw"]
  by (simp add: ticker_fires_def background_refl)

lemma reporter_ticks_background: "background dw (reporter_ticks k dw)"
  unfolding reporter_ticks_def
  by (induction k) (auto intro: background_refl background_trans ticker_fires_background)

lemma stop_observed_background:
  "\<not> stop_signalled (snd dw) \<Longrightarrow> background dw (stop_observed dw)"
  by (simp add: stop_observed_def background_refl)

lemma writer_step_background: "background (s_d s, s_w s) (s_d (writer_step s), s_w (writer_step s))"
  by (auto simp: writer_step_def background_def File_Write_def Let_def
           split: wpc.splits list.splits option.splits prod.splits if_splits)

lemma step_background:
  "\<not> stop_signalled (s_w s) \<Longrightarrow> background (s_d s, s_w s) (s_d (step a s), s_w (step a s))"
  using ticker_fires_background [of "(s_d s, s_w s)"] stop_observed_background [of "(s_d s, s_w s)"]
  by (cases a) (simp_all add: writer_step_background reporter_move_def Let_def)

lemma run_background:
  "\<not> stop_signalled (s_w s) \<Longrightarrow> background (s_d s, s_w s) (s_d (run acts s), s_w (run acts s))"
proof (induction acts arbitrary: s)
  case Nil
  then show ?case by (simp add: run_def background_refl)
next
  case (Cons a acts)
  have b1: "background (s_d s, s_w s) (s_d (step a s), s_w (step a s))"
    using Cons.prems by (rule step_background)
  then have "\<not> stop_signalled (s_w (step a s))"
    using Cons.prems by (simp add: background_def)
  then have "background (s_d (step a s), s_w (step a s)) (s_d (run acts (step a s)), s_w (run acts (step a s)))"
    by (rule Cons.IH)
  with b1 have "background (s_d s, s_w s) (s_d (run acts (step a s)), s_w (run acts (step a s)))"
    by (rule background_trans)
  moreover have "run (a # acts) s = run acts (step a s)" by (simp add: run_def)
  ultimately show ?case by simp
qed

lemma keeps_refl: "keeps w w"
  by (simp add: keeps_def)

lemma keeps_trans: "keeps a b \<Longrightarrow> keeps b c \<Longrightarrow> keeps a c"
  by (simp add: keeps_def)

lemma background_keeps: "background (d, w) (d', w') \<Longrightarrow> keeps w w'"
  by (simp add: background_def keeps_def foreground_def)

lemma print_line_keeps: "keeps w (print_line l w)"
  by (simp add: keeps_def print_line_def)

lemma Download_stream_returned:
  assumes "Download_stream e resp d w = (Some r, d', w')"
  shows "fs w' = (if r = None then (fs w)(ProgressPath d := None) else fs w) \<and>
         reporter w' = Running \<and> \<not> stop_signalled w' \<and>
         ProgressPath d' = ProgressPath d \<and>
         map_option f_closed (ProgressFile d') = map_option f_closed (ProgressFile d) \<and>
         EvSpawnReporter \<in> set (trace w') \<and>
         (\<forall>p. EvRemove p \<in> set (trace w') \<longleftrightarrow>
                EvRemove p \<in> set (trace w) \<or> (r = None \<and> p = ProgressPath d))"
proof -
  let ?ini = "stream_start resp d w"
  let ?fin = "run (sched e) ?ini"
  have s0: "s_d ?ini = d" "fs (s_w ?ini) = fs w" "reporter (s_w ?ini) = Running"
      "\<not> stop_signalled (s_w ?ini)" "EvSpawnReporter \<in> set (trace (s_w ?ini))"
      "\<And>p. EvRemove p \<in> set (trace (s_w ?ini)) \<longleftrightarrow> EvRemove p \<in> set (trace w)"
    by (simp_all add: stream_start_def ManageProgressPrinter_def print_line_def)
  have b1: "background (d, s_w ?ini) (s_d ?fin, s_w ?fin)"
    using run_background [OF s0(4), of "sched e"] s0(1) by simp
  obtain d4 w4 where t4: "reporter_ticks (ticks_at_return e) (s_d ?fin, s_w ?fin) = (d4, w4)"
    by (cases "reporter_ticks (ticks_at_return e) (s_d ?fin, s_w ?fin)")
  have b2: "background (s_d ?fin, s_w ?fin) (d4, w4)"
    using reporter_ticks_background [of "(s_d ?fin, s_w ?fin)" "ticks_at_return e"] t4 by simp
  have b12: "background (d, s_w ?ini) (d4, w4)" using b1 b2 by (rule background_trans)
  from assms have pc: "s_pc ?fin = Ret r"
    by (auto simp: Download_stream_def Let_def t4 split: wpc.splits prod.splits if_splits)
  show ?thesis
  proof (cases r)
    case (Some err)
    with assms pc t4 have "d' = d4" "w' = w4"
      by (auto simp: Download_stream_def Let_def)
    with b12 s0 Some show ?thesis
      by (simp add: background_def foreground_def)
  next
    case None
    obtain d5 w5 where t5: "reporter_ticks (ticks_after_remove e) (d4, Remove (ProgressPath d4) w4) = (d5, w5)"
      by (cases "reporter_ticks (ticks_after_remove e) (d4, Remove (ProgressPath d4) w4)")
    have b3: "background (d4, Remove (ProgressPath d4) w4) (d5, w5)"
      using reporter_ticks_background [of "(d4, Remove (ProgressPath d4) w4)" "ticks_after_remove e"] t5 by simp
    from assms pc t4 t5 None have e: "d' = d5" "w' = print_line ''Download completed.'' w5"
      by (auto simp: Download_stream_def Let_def)
    have p4: "ProgressPath d4 = ProgressPath d" using b12 by (simp add: background_def)
    from b12 b3 s0 None show ?thesis
      unfolding e p4 [symmetric]
      by (auto simp: background_def foreground_def Remove_def print_line_def)
  qed
qed

lemma File_Close_keeps:
  assumes "File_Close fo w = (err, f, w1)"
  shows "keeps w w1 \<and> (\<forall>pf. fo = Some pf \<longrightarrow> (\<exists>pf'. f = Some pf' \<and> f_closed pf')) \<and> (fo = None \<longrightarrow> f = None)"
  using assms
  by (auto simp: File_Close_def keeps_def split: option.splits if_splits)

lemma deferred_ProgressFile_Close_returned:
  assumes "deferred_ProgressFile_Close e res = (Some r, d', w')"
  shows "\<exists>d1 w1. res = (Some r, d1, w1) \<and> keeps w1 w' \<and> ProgressPath d' = ProgressPath d1 \<and>
           (\<forall>pf. ProgressFile d1 = Some pf \<longrightarrow> (\<exists>pf'. ProgressFile d' = Some pf' \<and> f_closed pf'))"
proof -
  obtain x d1 w1 where res: "res = (x, d1, w1)" by (cases res)
  with assms have x: "x = Some r"
    by (cases x) (auto simp: deferred_ProgressFile_Close_def split: prod.splits)
  obtain err f w2 where fc: "File_Close (ProgressFile d1) w1 = (err, f, w2)"
    by (cases "File_Close (ProgressFile d1) w1")
  obtain d3 w3 where rt: "reporter_ticks (ticks_after_close e) (d1\<lparr>ProgressFile := f\<rparr>, w2) = (d3, w3)"
    by (cases "reporter_ticks (ticks_after_close e) (d1\<lparr>ProgressFile := f\<rparr>, w2)")
  from assms res x fc rt have e: "d' = d3" "w' = w3"
    by (simp_all add: deferred_ProgressFile_Close_def)
  have b: "background (d1\<lparr>ProgressFile := f\<rparr>, w2) (d3, w3)"
    using reporter_ticks_background [of "(d1\<lparr>ProgressFile := f\<rparr>, w2)" "ticks_after_close e"] rt by simp
  have k1: "keeps w1 w2" and cl: "\<forall>pf. ProgressFile d1 = Some pf \<longrightarrow> (\<exists>pf'. f = Some pf' \<and> f_closed pf')"
    using File_Close_keeps [OF fc] by simp_all
  have k2: "keeps w2 w3" using b by (rule background_keeps)
  have pp: "ProgressPath d3 = ProgressPath d1" using b by (simp add: background_def)
  have "\<exists>pf'. ProgressFile d3 = Some pf' \<and> f_closed pf'" if "ProgressFile d1 = Some pf" for pf
  proof -
    from cl that obtain pf1 where "f = Some pf1" "f_closed pf1" by blast
    with b have "map_option f_closed (ProgressFile d3) = Some True" by (simp add: background_def)
    then show ?thesis by (cases "ProgressFile d3") auto
  qed
  with res x e keeps_trans [OF k1 k2] pp show ?thesis by blast
qed

lemma deferred_OutputFile_Close_returned:
  assumes "deferred_OutputFile_Close res = (Some r, d', w')"
  shows "\<exists>d1 w1. res = (Some r, d1, w1) \<and> keeps w1 w' \<and> ProgressPath d' = ProgressPath d1 \<and>
           ProgressFile d' = ProgressFile d1"
proof -
  obtain x d1 w1 where res: "res = (x, d1, w1)" by (cases res)
  with assms have x: "x = Some r"
    by (cases x) (auto simp: deferred_OutputFile_Close_def split: prod.splits)
  obtain err f w2 where fc: "File_Close (OutputFile d1) w1 = (err, f, w2)"
    by (cases "File_Close (OutputFile d1) w1")
  from assms res x fc have e: "d' = d1\<lparr>OutputFile := f\<rparr>" "w' = w2"
    by (simp_all add: deferred_OutputFile_Close_def)
  have "keeps w1 w2" using File_Close_keeps [OF fc] by simp
  with res x e show ?thesis by simp
qed

lemma deferred_Body_Close_returned:
  assumes "deferred_Body_Close res = (Some r, d', w')"
  shows "\<exists>w1. res = (Some r, d', w1) \<and> keeps w1 w'"
proof -
  obtain x d1 w1 where res: "res = (x, d1, w1)" by (cases res)
  with assms have x: "x = Some r"
    by (cases x) (auto simp: deferred_Body_Close_def split: prod.splits)
  from assms res x have "d' = d1" "w' = w1\<lparr>trace := trace w1 @ [EvBodyClose]\<rparr>"
    by (simp_all add: deferred_Body_Close_def)
  with res x show ?thesis by (simp add: keeps_def)
qed

lemma OpenFile_Inr:
  assumes "OpenFile fl p w = Inr (f, w1)"
  shows "trace w1 = trace w \<and> reporter w1 = reporter w \<and> stop_signalled w1 = stop_signalled w \<and>
         \<not> f_closed f \<and> f_pos f = 0 \<and> fs w1 p \<noteq> None \<and> (\<forall>q i. fs w q = Some i \<longrightarrow> fs w1 q = Some i)"
  using assms
  by (auto simp: OpenFile_def Let_def split: option.splits)

lemma exit_ok_error_same: "r \<noteq> None \<Longrightarrow> exit_ok p w r d' w"
  by (auto simp: exit_ok_def spawned_def)

lemma exit_ok_keeps_after:
  assumes "exit_ok p w r d1 w1" "keeps w1 w'" "ProgressFile d' = ProgressFile d1"
  shows "exit_ok p w r d' w'"
  using assms by (auto simp: exit_ok_def keeps_def spawned_def)

lemma exit_ok_before:
  assumes "exit_ok p w1 r d' w'" "trace w1 = trace w" "\<forall>q i. fs w q = Some i \<longrightarrow> fs w1 q = Some i"
  shows "exit_ok p w r d' w'"
  using assms by (auto simp: exit_ok_def spawned_def)

lemma exit_ok_error_keeps: "r \<noteq> None \<Longrightarrow> keeps w w' \<Longrightarrow> exit_ok p w r d' w'"
  by (auto simp: exit_ok_def spawned_def keeps_def)

lemma streamed_exit:
  assumes "deferred_ProgressFile_Close e (Download_stream e resp d w) = (Some r, d', w')"
      and "ProgressFile d = Some pf" "fs w (ProgressPath d) \<noteq> None"
  shows "exit_ok (ProgressPath d) w r d' w' \<and> ProgressPath d' = ProgressPath d"
proof -
  from deferred_ProgressFile_Close_returned [OF assms(1)]
  obtain d1 w1 where ds: "Download_stream e resp d w = (Some r, d1, w1)"
    and k: "keeps w1 w'" and pp: "ProgressPath d' = ProgressPath d1"
    and cl: "\<forall>pf. ProgressFile d1 = Some pf \<longrightarrow> (\<exists>pf'. ProgressFile d' = Some pf' \<and> f_closed pf')"
    by blast
  note st = Download_stream_returned [OF ds]
  from st assms(2) have "map_option f_closed (ProgressFile d1) = Some (f_closed pf)" by simp
  then obtain pf1 where "ProgressFile d1 = Some pf1" by (cases "ProgressFile d1") auto
  with cl have closed: "\<exists>pf'. ProgressFile d' = Some pf' \<and> f_closed pf'" by blast
  from st k closed assms(3) pp show ?thesis
    by (auto simp: exit_ok_def keeps_def spawned_def)
qed

lemma Download_files_returned:
  assumes "Download_files e resp d w = (Some r, d', w')"
  shows "exit_ok (ProgressPath d) w r d' w' \<and> ProgressPath d' = ProgressPath d"
proof (cases "OpenFile (flt e) (FilePath d) w")
  case (Inl err)
  with assms show ?thesis by (auto simp: Download_files_def exit_ok_error_same)
next
  case (Inr fw)
  obtain f w1 where fw: "fw = (f, w1)" by (cases fw)
  note o1 = OpenFile_Inr [OF Inr [unfolded fw]]
  let ?d1 = "d\<lparr>OutputFile := Some f\<rparr>"
  obtain serr fo where sk: "File_Seek (Some f) (sint (Downloaded d)) = (serr, fo)"
    by (cases "File_Seek (Some f) (sint (Downloaded d))")
  let ?X = "case serr of
              Some err \<Rightarrow> (Some (Some err), ?d1\<lparr>OutputFile := fo\<rparr>, w1)
            | None \<Rightarrow>
                (case OpenFile (flt e) (ProgressPath d) w1 of
                   Inl err \<Rightarrow> (Some (Some err), ?d1\<lparr>OutputFile := fo, ProgressFile := None\<rparr>, w1)
                 | Inr (pf, w2) \<Rightarrow>
                     deferred_ProgressFile_Close e
                       (Download_stream e resp (?d1\<lparr>OutputFile := fo, ProgressFile := Some pf\<rparr>) w2))"
  have df: "Download_files e resp d w = deferred_OutputFile_Close ?X"
    using Inr fw sk by (simp add: Download_files_def Let_def split: option.splits sum.splits)
  from deferred_OutputFile_Close_returned [OF assms [unfolded df]]
  obtain d2 w2' where X: "?X = (Some r, d2, w2')" and k: "keeps w2' w'"
    and pp: "ProgressPath d' = ProgressPath d2" and pf: "ProgressFile d' = ProgressFile d2"
    by blast
  have inner: "exit_ok (ProgressPath d) w1 r d2 w2' \<and> ProgressPath d2 = ProgressPath d"
  proof (cases serr)
    case (Some err)
    with X show ?thesis by (auto simp: exit_ok_error_same)
  next
    case None
    show ?thesis
    proof (cases "OpenFile (flt e) (ProgressPath d) w1")
      case (Inl err)
      with X None show ?thesis by (auto simp: exit_ok_error_same)
    next
      case (Inr pw)
      obtain pf w2 where pw: "pw = (pf, w2)" by (cases pw)
      note o2 = OpenFile_Inr [OF Inr [unfolded pw]]
      let ?d3 = "?d1\<lparr>OutputFile := fo, ProgressFile := Some pf\<rparr>"
      from X None Inr pw
      have "deferred_ProgressFile_Close e (Download_stream e resp ?d3 w2) = (Some r, d2, w2')"
        by simp
      from streamed_exit [OF this, of pf] o2
      have "exit_ok (ProgressPath d) w2 r d2 w2' \<and> ProgressPath d2 = ProgressPath d"
        by simp
      with o2 show ?thesis by (auto intro: exit_ok_before)
    qed
  qed
  then have "exit_ok (ProgressPath d) w1 r d' w'"
    using k pf by (auto intro: exit_ok_keeps_after)
  then have "exit_ok (ProgressPath d) w r d' w'"
    using o1 by (auto intro: exit_ok_before)
  with inner pp show ?thesis by simp
qed

lemma Download_response_returned:
  assumes "Download_response e resp d w = (Some r, d', w')"
  shows "exit_ok (ProgressPath d) w r d' w' \<and> ProgressPath d' = ProgressPath d"
proof -
  consider (bad) "StatusCode resp \<noteq> 200 \<and> StatusCode resp \<noteq> 206"
    | (rej) "\<not> (StatusCode resp \<noteq> 200 \<and> StatusCode resp \<noteq> 206)" "0 <s Downloaded d \<and> StatusCode resp \<noteq> 206"
    | (len) "\<not> (StatusCode resp \<noteq> 200 \<and> StatusCode resp \<noteq> 206)" "\<not> (0 <s Downloaded d \<and> StatusCode resp \<noteq> 206)"
            "ContentLength resp \<noteq> []"
    | (nolen) "\<not> (StatusCode resp \<noteq> 200 \<and> StatusCode resp \<noteq> 206)" "\<not> (0 <s Downloaded d \<and> StatusCode resp \<noteq> 206)"
            "ContentLength resp = []"
    by blast
  then show ?thesis
  proof cases
    case bad
    with assms show ?thesis by (auto simp: Download_response_def exit_ok_error_same)
  next
    case rej
    with assms show ?thesis
      by (auto simp: Download_response_def intro!: exit_ok_error_keeps print_line_keeps)
  next
    case len
    show ?thesis
    proof (cases "ParseInt (ContentLength resp)")
      case (Inl err)
      with assms len show ?thesis by (auto simp: Download_response_def exit_ok_error_same)
    next
      case (Inr contentLen)
      with assms len
      have "Download_files e resp (d\<lparr>TotalSize := Downloaded d + word_of_int contentLen\<rparr>) w = (Some r, d', w')"
        by (auto simp: Download_response_def)
      from Download_files_returned [OF this] show ?thesis by simp
    qed
  next
    case nolen
    with assms have "Download_files e resp d w = (Some r, d', w')"
      by (auto simp: Download_response_def)
    then show ?thesis by (rule Download_files_returned)
  qed
qed

lemma CreateRequest_ProgressPath:
  "CreateRequest fl w d = (x, d1) \<Longrightarrow> ProgressPath d1 = ProgressPath d"
  by (auto simp: CreateRequest_def Let_def ReadProgress_other_fields split: sum.splits if_splits)

lemma Download_returned:
  assumes "Download e d w = (Some r, d', w')"
  shows "exit_ok (ProgressPath d) w r d' w'"
proof -
  obtain x d1 where cr: "CreateRequest (flt e) w d = (x, d1)" by (cases "CreateRequest (flt e) w d")
  have pp: "ProgressPath d1 = ProgressPath d" using cr by (rule CreateRequest_ProgressPath)
  show ?thesis
  proof (cases x)
    case (Inl err)
    with assms cr show ?thesis by (auto simp: Download_def exit_ok_error_same)
  next
    case (Inr req)
    show ?thesis
    proof (cases "do_result e req")
      case (Inl err)
      with assms cr Inr show ?thesis by (auto simp: Download_def exit_ok_error_same)
    next
      case inr: (Inr resp)
      with assms cr Inr have "deferred_Body_Close (Download_response e resp d1 w) = (Some r, d', w')"
        by (simp add: Download_def)
      from deferred_Body_Close_returned [OF this]
      obtain w1 where dr: "Download_response e resp d1 w = (Some r, d', w1)" and k: "keeps w1 w'"
        by blast
      from Download_response_returned [OF dr] pp have "exit_ok (ProgressPath d) w r d' w1" by simp
      with k show ?thesis by (auto intro: exit_ok_keeps_after)
    qed
  qed
qed

end
